theory Spec2Isabelle
  imports Complex_Main "HOL-Library.Word" "HOL-Library.Multiset"
begin

section \<open>Go integers, durations and times\<close>

text \<open>
  Go's \<open>int\<close> and \<open>int64\<close> are 64 bits wide; \<open>int64\<close> reads an integer back after
  wrap-around. A \<open>time.Duration\<close> is an \<open>int64\<close> count of nanoseconds.
\<close>

definition int64 :: "int \<Rightarrow> int" where
  "int64 x = sint (word_of_int x :: 64 word)"

type_synonym duration = int

definition Millisecond :: duration where "Millisecond = 1000000"
definition Second :: duration where "Second = 1000000000"

definition maxDuration :: duration where "maxDuration = 2 ^ 63 - 1"
definition minDuration :: duration where "minDuration = - (2 ^ 63)"

text \<open>Go's \<open>/\<close> and \<open>%\<close> on integers truncate towards zero (here for a positive divisor).\<close>

definition go_quot :: "int \<Rightarrow> int \<Rightarrow> int" where
  "go_quot a b = (if a \<ge> 0 then a div b else - ((- a) div b))"

definition go_rem :: "int \<Rightarrow> int \<Rightarrow> int" where
  "go_rem a b = (if a \<ge> 0 then a mod b else - ((- a) mod b))"

text \<open>
  A \<open>time.Time\<close> that carries no monotonic clock reading, which is what the zero value,
  \<open>time.Date\<close> and \<open>time.Unix\<close> give and what the repository's test clocks return: the
  seconds since January 1 of year 1 (an \<open>int64\<close>) and the nanoseconds within the second.
  The operations are those of the standard library on such values: \<open>Add\<close> saturates the
  seconds (\<open>addSec\<close>), and \<open>Sub\<close> answers the smallest or largest duration when the
  difference does not fit.
\<close>

record instant =
  wallSec :: int
  wallNsec :: int

definition zeroTime :: instant where
  "zeroTime = \<lparr>wallSec = 0, wallNsec = 0\<rparr>"

definition time_IsZero :: "instant \<Rightarrow> bool" where
  "time_IsZero t = (wallSec t = 0 \<and> wallNsec t = 0)"

definition addSec :: "int \<Rightarrow> int \<Rightarrow> int" where
  "addSec ext d =
     (let sum = int64 (ext + d) in
      if (sum > ext) = (d > 0) then sum
      else if d > 0 then 2 ^ 63 - 1
      else - (2 ^ 63 - 1))"

definition time_Add :: "instant \<Rightarrow> duration \<Rightarrow> instant" where
  "time_Add t d =
     (let dsec = go_quot d 1000000000;
          ns = wallNsec t + go_rem d 1000000000;
          (dsec, ns) = (if ns \<ge> 1000000000 then (dsec + 1, ns - 1000000000)
                        else if ns < 0 then (dsec - 1, ns + 1000000000)
                        else (dsec, ns))
      in \<lparr>wallSec = addSec (wallSec t) dsec, wallNsec = ns\<rparr>)"

definition time_Before :: "instant \<Rightarrow> instant \<Rightarrow> bool" where
  "time_Before t u =
     (wallSec t < wallSec u \<or> (wallSec t = wallSec u \<and> wallNsec t < wallNsec u))"

definition time_Sub :: "instant \<Rightarrow> instant \<Rightarrow> duration" where
  "time_Sub t u =
     (let d = int64 (int64 (int64 (wallSec t - wallSec u) * Second) + (wallNsec t - wallNsec u))
      in if time_Add u d = t then d
         else if time_Before t u then minDuration
         else maxDuration)"

section \<open>internal/limiter: the rate limiter\<close>

text \<open>The field \<open>last\<close> of the source is \<open>last_time\<close> here.\<close>

record Limiter =
  interval :: duration
  last_time :: instant

text \<open>\<open>NewWithTimer\<close>: a non-positive interval yields the nil limiter (\<open>None\<close>).\<close>

definition NewWithTimer :: "duration \<Rightarrow> Limiter option" where
  "NewWithTimer i = (if i \<le> 0 then None else Some \<lparr>interval = i, last_time = zeroTime\<rparr>)"

text \<open>
  \<open>Limiter.Wait\<close>: the part under the mutex. The argument \<open>now\<close> is what \<open>clock.Now()\<close>
  returned inside the critical section. The result is the updated limiter and the
  duration handed to \<open>clock.Sleep\<close> after unlocking (\<open>None\<close>: return \<open>nil\<close> at once).
  The mutex serialises the critical sections, so the calls of all goroutines form one
  sequence.
\<close>

definition Wait :: "Limiter \<Rightarrow> instant \<Rightarrow> Limiter \<times> duration option" where
  "Wait l now =
     (if time_IsZero (last_time l) then (l\<lparr>last_time := now\<rparr>, None)
      else let next = time_Add (last_time l) (interval l) in
        if time_Before now next then (l\<lparr>last_time := next\<rparr>, Some (time_Sub next now))
        else (l\<lparr>last_time := now\<rparr>, None))"

text \<open>
  A sequence of \<open>Wait\<close> calls, given the clock reading of each: the grant time (the value
  of \<open>last_time\<close> the call leaves behind) and the sleep requested, for each call.
\<close>

fun waits :: "Limiter \<Rightarrow> instant list \<Rightarrow> (instant \<times> duration option) list" where
  "waits l [] = []"
| "waits l (now # nows) =
     (let (l', s) = Wait l now in (last_time l', s) # waits l' nows)"

section \<open>internal/fetcher: retry backoff\<close>

definition baseRetryDelay :: duration where "baseRetryDelay = 100 * Millisecond"
definition maxRetryDelay :: duration where "maxRetryDelay = 2 * Second"

record Fetcher =
  timeout :: duration
  userAgent :: string
  limiter :: "Limiter option"
  retries :: int
  retryDelay :: duration

text \<open>\<open>fetcher.New\<close> (the HTTP client and the clock are part of the environment below).\<close>

definition fetcher_New ::
  "duration \<Rightarrow> string \<Rightarrow> Limiter option \<Rightarrow> int \<Rightarrow> duration \<Rightarrow> Fetcher" where
  "fetcher_New tmo ua rl rs rd =
     \<lparr>timeout = tmo, userAgent = ua, limiter = rl, retries = rs,
      retryDelay = (if rd \<le> 0 then baseRetryDelay else rd)\<rparr>"

text \<open>
  The loop \<open>for i := 1; i < attempt; i++\<close> of \<open>retryDelayFor\<close>, by the number of
  iterations still to run; \<open>delay *= 2\<close> is a multiplication of \<open>int64\<close>.
\<close>

fun retryDelayLoop :: "nat \<Rightarrow> duration \<Rightarrow> duration" where
  "retryDelayLoop 0 delay = (if delay > maxRetryDelay then maxRetryDelay else delay)"
| "retryDelayLoop (Suc k) delay =
     (if delay \<ge> maxRetryDelay then maxRetryDelay else retryDelayLoop k (int64 (delay * 2)))"

definition retryDelayFor :: "Fetcher \<Rightarrow> int \<Rightarrow> duration" where
  "retryDelayFor f attempt =
     (let attempt = (if attempt < 1 then 1 else attempt)
      in retryDelayLoop (nat (attempt - 1)) (retryDelay f))"

section \<open>Go values used across the packages\<close>

text \<open>
  Error values. The leaves are the sentinels the classification looks for
  (\<open>context.Canceled\<close>, \<open>context.DeadlineExceeded\<close>, \<open>errInvalidRequest\<close>, \<open>io.EOF\<close>,
  \<open>io.ErrUnexpectedEOF\<close>), an error implementing \<open>net.Error\<close>, and any other error
  (\<open>errors.New\<close>). \<open>URLError pre e\<close> is a \<open>*url.Error\<close> whose \<open>Err\<close> is \<open>e\<close>
  (\<open>URLErrorNil\<close>: \<open>Err\<close> is nil) and \<open>Wrap msg e\<close> is \<open>fmt.Errorf\<close> with one \<open>%w\<close>
  verb wrapping \<open>e\<close>; \<open>pre\<close> (the \<open>Op "URL": \<close> prefix) and \<open>msg\<close> give the text.
\<close>

datatype error =
    Canceled
  | DeadlineExceeded
  | InvalidRequest
  | EOF
  | UnexpectedEOF
  | NetError string
  | Plain string
  | URLErrorNil string
  | URLError string error
  | Wrap string error

fun error_Error :: "error \<Rightarrow> string" where
  "error_Error Canceled = ''context canceled''"
| "error_Error DeadlineExceeded = ''context deadline exceeded''"
| "error_Error InvalidRequest = ''invalid request''"
| "error_Error EOF = ''EOF''"
| "error_Error UnexpectedEOF = ''unexpected EOF''"
| "error_Error (NetError m) = m"
| "error_Error (Plain m) = m"
| "error_Error (URLErrorNil pre) = pre @ ''%!s(<nil>)''"
| "error_Error (URLError pre e) = pre @ error_Error e"
| "error_Error (Wrap m e) = m"

text \<open>
  \<open>errors.Is\<close> for a sentinel target: equality along the \<open>Unwrap\<close> chain; \<open>*url.Error\<close>
  unwraps to its \<open>Err\<close>, a \<open>%w\<close> wrapper to the error it wraps.
\<close>

fun errors_Is :: "error \<Rightarrow> error \<Rightarrow> bool" where
  "errors_Is (URLError pre e) target = (URLError pre e = target \<or> errors_Is e target)"
| "errors_Is (Wrap m e) target = (Wrap m e = target \<or> errors_Is e target)"
| "errors_Is e target = (e = target)"

text \<open>
  \<open>errors.As(err, &urlErr)\<close> with \<open>urlErr *url.Error\<close>: the first \<open>*url.Error\<close> of the
  chain, and its \<open>Err\<close> field.
\<close>

fun as_urlError :: "error \<Rightarrow> error option" where
  "as_urlError (URLError pre e) = Some (URLError pre e)"
| "as_urlError (URLErrorNil pre) = Some (URLErrorNil pre)"
| "as_urlError (Wrap m e) = as_urlError e"
| "as_urlError e = None"

fun urlError_Err :: "error \<Rightarrow> error option" where
  "urlError_Err (URLError pre e) = Some e"
| "urlError_Err e = None"

text \<open>
  \<open>errors.As(err, &netErr)\<close> with \<open>netErr net.Error\<close>: some error of the chain has the
  methods \<open>Timeout\<close> and \<open>Temporary\<close>. \<open>*url.Error\<close> and \<open>context.DeadlineExceeded\<close>
  have them too.
\<close>

fun isNetError :: "error \<Rightarrow> bool" where
  "isNetError (NetError m) = True"
| "isNetError DeadlineExceeded = True"
| "isNetError (URLErrorNil pre) = True"
| "isNetError (URLError pre e) = True"
| "isNetError (Wrap m e) = isNetError e"
| "isNetError e = False"

definition isContextCanceled :: "error \<Rightarrow> bool" where
  "isContextCanceled err = (errors_Is err Canceled \<or> errors_Is err DeadlineExceeded)"

definition isEOFLike :: "error \<Rightarrow> bool" where
  "isEOFLike err = (errors_Is err EOF \<or> errors_Is err UnexpectedEOF)"

text \<open>\<open>http.Header\<close> with \<open>Get\<close>, and \<open>fetcher.Result\<close>; a nil body is \<open>None\<close>.\<close>

type_synonym header = "(string \<times> string) list"

definition header_Get :: "header \<Rightarrow> string \<Rightarrow> string" where
  "header_Get h k = (case map_of h k of None \<Rightarrow> [] | Some v \<Rightarrow> v)"

record Result =
  StatusCode :: int
  Header :: header
  Body :: "string option"

definition emptyResult :: Result where
  "emptyResult = \<lparr>StatusCode = 0, Header = [], Body = None\<rparr>"

type_synonym outcome = "Result \<times> error option"

section \<open>internal/fetcher: retry classification and the Fetch loop\<close>

definition StatusBadRequest :: int where "StatusBadRequest = 400"
definition StatusTooManyRequests :: int where "StatusTooManyRequests = 429"
definition StatusInternalServerError :: int where "StatusInternalServerError = 500"

text \<open>
  The loop of \<open>isRetryableURLError\<close> over \<open>err := urlErr.Err\<close>; \<open>None\<close> is the nil error
  that ends it.
\<close>

function urlErrLoop :: "error option \<Rightarrow> bool" where
  "urlErrLoop None = False"
| "urlErrLoop (Some err) =
     (if isContextCanceled err then False
      else if errors_Is err InvalidRequest then False
      else if isEOFLike err then True
      else (case as_urlError err of
              Some inner \<Rightarrow> urlErrLoop (urlError_Err inner)
            | None \<Rightarrow> isNetError err))"
  by pat_completeness auto
termination
proof (relation "measure (\<lambda>e. case e of None \<Rightarrow> 0 | Some x \<Rightarrow> Suc (size x))")
  show "wf (measure (\<lambda>e. case e of None \<Rightarrow> 0 | Some x \<Rightarrow> Suc (size x)))" by simp
next
  fix err inner
  assume found: "as_urlError err = Some inner"
  have smaller: "\<And>e. as_urlError err = Some inner \<Longrightarrow> urlError_Err inner = Some e \<Longrightarrow>
      size e < size err"
    by (induction err rule: as_urlError.induct) auto
  show "(urlError_Err inner, Some err)
      \<in> measure (\<lambda>e. case e of None \<Rightarrow> 0 | Some x \<Rightarrow> Suc (size x))"
    using smaller [OF found] by (auto split: option.splits)
qed

text \<open>\<open>isRetryableURLError\<close>, applied to the \<open>*url.Error\<close> found by \<open>errors.As\<close>.\<close>

definition isRetryableURLError :: "error \<Rightarrow> bool" where
  "isRetryableURLError urlErr =
     (if isContextCanceled urlErr then False
      else if errors_Is urlErr InvalidRequest then False
      else if isEOFLike urlErr then True
      else urlErrLoop (urlError_Err urlErr))"

definition isRetryableError :: "error \<Rightarrow> bool" where
  "isRetryableError err =
     (if isContextCanceled err then False
      else if errors_Is err InvalidRequest then False
      else if isEOFLike err then True
      else (case as_urlError err of
              Some urlErr \<Rightarrow> isRetryableURLError urlErr
            | None \<Rightarrow> isNetError err))"

definition isRetryable :: "int \<Rightarrow> error option \<Rightarrow> bool" where
  "isRetryable statusCode err =
     (case err of
        Some e \<Rightarrow> isRetryableError e
      | None \<Rightarrow> if statusCode = StatusTooManyRequests then True
                else statusCode \<ge> StatusInternalServerError)"

text \<open>
  \<open>statusText\<close>, \<open>errorForStatus\<close> and \<open>coalesceError\<close>. \<open>http.StatusText\<close> is the
  standard library's table, a parameter; \<open>fmt_d\<close> formats an integer in decimal.
\<close>

definition statusText :: "(int \<Rightarrow> string) \<Rightarrow> (int \<Rightarrow> string) \<Rightarrow> int \<Rightarrow> string" where
  "statusText http_StatusText fmt_d statusCode =
     (let text = http_StatusText statusCode
      in if text = [] then ''http status '' @ fmt_d statusCode else text)"

definition errorForStatus ::
  "(int \<Rightarrow> string) \<Rightarrow> (int \<Rightarrow> string) \<Rightarrow> error option \<Rightarrow> int \<Rightarrow> error option" where
  "errorForStatus http_StatusText fmt_d err statusCode =
     (case err of
        Some e \<Rightarrow> Some e
      | None \<Rightarrow> if statusCode \<ge> StatusBadRequest
                then Some (Plain (statusText http_StatusText fmt_d statusCode))
                else None)"

definition coalesceError :: "error option \<Rightarrow> error option \<Rightarrow> error option" where
  "coalesceError primary fallback = (case primary of Some e \<Rightarrow> Some e | None \<Rightarrow> fallback)"

text \<open>
  What one attempt of \<open>Fetch\<close> meets: the pair \<open>fetchOnce\<close> returns, the value of
  \<open>ctx.Err()\<close> read after it (\<open>None\<close>: the context is live), and what \<open>clock.Sleep\<close>
  returns if the backoff is slept.
\<close>

record attempt =
  fetched :: outcome
  ctxErr :: "error option"
  sleepErr :: "error option"

text \<open>
  \<open>shouldRetry\<close>; the third component is the backoff handed to \<open>clock.Sleep\<close>, if any.
\<close>

definition shouldRetry ::
  "(int \<Rightarrow> string) \<Rightarrow> (int \<Rightarrow> string) \<Rightarrow> Fetcher \<Rightarrow> attempt \<Rightarrow> int \<Rightarrow> int \<Rightarrow> Result \<Rightarrow>
   error option \<Rightarrow> bool \<times> error option \<times> duration list" where
  "shouldRetry http_StatusText fmt_d f env attempt attempts result err =
     (case ctxErr env of
        Some ce \<Rightarrow> (False, coalesceError err (Some ce), [])
      | None \<Rightarrow>
          if \<not> isRetryable (StatusCode result) err \<or> attempt = attempts - 1
          then (False, errorForStatus http_StatusText fmt_d err (StatusCode result), [])
          else let sleepDelay = retryDelayFor f (attempt + 1) in
            (case sleepErr env of
               Some se \<Rightarrow> (False, Some se, [sleepDelay])
             | None \<Rightarrow> (True, None, [sleepDelay])))"

text \<open>
  What a call of \<open>Fetch\<close> did: the pair it returned, how many times it called
  \<open>fetchOnce\<close>, and the backoffs it slept.
\<close>

record fetchRun =
  returned :: outcome
  attemptsMade :: nat
  slept :: "duration list"

text \<open>
  The loop \<open>for attempt := range attempts\<close>: \<open>a\<close> is the attempt index, the next
  argument the number of iterations left, \<open>lastO\<close> the pair \<open>lastResult, lastErr\<close>.
\<close>

fun fetchFrom ::
  "(int \<Rightarrow> string) \<Rightarrow> (int \<Rightarrow> string) \<Rightarrow> Fetcher \<Rightarrow> (nat \<Rightarrow> attempt) \<Rightarrow> int \<Rightarrow> nat \<Rightarrow> nat \<Rightarrow>
   outcome \<Rightarrow> fetchRun" where
  "fetchFrom st fd f env attempts a 0 lastO =
     \<lparr>returned = lastO, attemptsMade = a, slept = []\<rparr>"
| "fetchFrom st fd f env attempts a (Suc k) lastO =
     (let (result, err) = fetched (env a) in
      if err = None \<and> StatusCode result < StatusBadRequest then
        (case ctxErr (env a) of
           Some ce \<Rightarrow> \<lparr>returned = (emptyResult, Some ce), attemptsMade = Suc a, slept = []\<rparr>
         | None \<Rightarrow> \<lparr>returned = (result, None), attemptsMade = Suc a, slept = []\<rparr>)
      else
        (case shouldRetry st fd f (env a) (int a) attempts result err of
           (retry, retryErr, sl) \<Rightarrow>
             if \<not> retry
             then \<lparr>returned = (result, retryErr), attemptsMade = Suc a, slept = sl\<rparr>
             else (let r = fetchFrom st fd f env attempts (Suc a) k (result, err)
                   in r\<lparr>slept := sl @ slept r\<rparr>)))"

definition Fetch ::
  "(int \<Rightarrow> string) \<Rightarrow> (int \<Rightarrow> string) \<Rightarrow> Fetcher \<Rightarrow> (nat \<Rightarrow> attempt) \<Rightarrow> fetchRun" where
  "Fetch st fd f env =
     (let attempts = int64 (retries f + 1)
      in fetchFrom st fd f env attempts 0 (nat attempts) (emptyResult, None))"


text \<open>
  Vocabulary for stating the retry policy: the innermost error of a chain of wrappers,
  the network-class leaves, a successful attempt, and an attempt after which the loop
  goes on (provided it is not the last one).
\<close>

fun innermost :: "error \<Rightarrow> error" where
  "innermost (URLError pre e) = innermost e"
| "innermost (Wrap m e) = innermost e"
| "innermost e = e"

definition networkClass :: "error \<Rightarrow> bool" where
  "networkClass e =
     (case e of EOF \<Rightarrow> True | UnexpectedEOF \<Rightarrow> True | NetError m \<Rightarrow> True | _ \<Rightarrow> False)"

definition succeeded :: "outcome \<Rightarrow> bool" where
  "succeeded oc = (snd oc = None \<and> StatusCode (fst oc) < StatusBadRequest)"

definition retriable :: "attempt \<Rightarrow> bool" where
  "retriable att =
     (\<not> succeeded (fetched att) \<and> ctxErr att = None \<and>
      isRetryable (StatusCode (fst (fetched att))) (snd (fetched att)) \<and> sleepErr att = None)"

section \<open>crawler: data model\<close>

text \<open>
  Field names are the source's; where two structs share a field name, the later
  record's field carries a prefix (\<open>bl_\<close> for \<open>BrokenLink\<close>, \<open>asset_\<close> for \<open>Asset\<close>,
  \<open>opt_\<close> for \<open>Options\<close>, and so on). A slice that the code may leave nil, with a
  visible difference (\<open>null\<close> against \<open>[]\<close> in the JSON), is a \<open>list option\<close> with
  \<open>None\<close> for nil.
\<close>

record url_URL =
  Scheme :: string
  Host :: string
  Path :: string
  RawPath :: string
  ForceQuery :: bool
  RawQuery :: string
  Fragment :: string

datatype http_Client = Client

record Options =
  opt_URL :: string
  opt_Depth :: int
  Retries :: int
  Delay :: duration
  Timeout :: duration
  RPS :: real
  UserAgent :: string
  Concurrency :: int
  MaxConcurrentFetch :: int
  IndentJSON :: bool
  HTTPClient :: "http_Client option"

record SEO =
  HasTitle :: bool
  Title :: string
  HasDescription :: bool
  Description :: string
  HasH1 :: bool

record BrokenLink =
  bl_URL :: string
  bl_StatusCode :: int
  bl_Error :: string

record Asset =
  asset_URL :: string
  asset_Type :: string
  asset_StatusCode :: int
  SizeBytes :: int
  asset_Error :: string

record Page =
  URL :: string
  Depth :: int
  HTTPStatus :: int
  Status :: string
  Error :: string
  SEO :: SEO
  BrokenLinks :: "BrokenLink list option"
  Assets :: "Asset list option"
  DiscoveredAt :: string

record Report =
  RootURL :: string
  report_Depth :: int
  GeneratedAt :: string
  Pages :: "Page list"

text \<open>internal/parser: what \<open>ParseHTML\<close> returns.\<close>

record AssetRef =
  ref_URL :: string
  ref_Type :: string

record ParseResult =
  parsed_SEO :: SEO
  Links :: "string list"
  parsed_Assets :: "AssetRef list"

record crawlJob =
  url :: string
  depth :: int
  discoveredAt :: instant
  seq :: nat

record pageResult =
  job :: crawlJob
  page :: Page
  links :: "string list"
  err :: "error option"

record linkCheck =
  broken :: bool
  link :: BrokenLink
  lc_url :: string

record assetFetchResult =
  statusCode :: int
  sizeBytes :: int
  afr_err :: string

text \<open>
  The analyzer. Its two caches are association lists; \<open>fetchLog\<close> is not a field of
  the source: it records the URL of every call of \<open>Fetcher.Fetch\<close>, in order, so that
  statements about the requests issued can be made.
\<close>

record analyzer =
  options :: Options
  baseURL :: url_URL
  fetch :: Fetcher
  maxDepth :: int
  fetchCache :: "(string \<times> outcome) list"
  assetCache :: "(string \<times> assetFetchResult) list"
  fetchLog :: "string list"

record crawlState =
  seen :: "string list"
  analysisErr :: "error option"

text \<open>
  The aggregator; \<open>jobs\<close> is the content of the jobs channel and \<open>pendingPages\<close> the map
  from sequence numbers to pages. The sequence counters are \<open>uint64\<close> in the source and
  count enqueued jobs; they are natural numbers here.
\<close>

record aggregator =
  state :: crawlState
  jobs :: "crawlJob list"
  pending :: int
  jobsClosed :: bool
  agg_maxDepth :: int
  report :: Report
  agg_baseURL :: url_URL
  nextSeq :: nat
  nextCommit :: nat
  pendingPages :: "(nat \<times> Page) list"

section \<open>The environment of an invocation\<close>

text \<open>
  What the crawl engine takes from outside the repository's own code, as parameters:
  the standard library's \<open>net/url\<close>, \<open>strings\<close>, \<open>strconv\<close>, \<open>net/http\<close>, \<open>fmt\<close>, \<open>time\<close>
  and \<open>encoding/json\<close> functions it calls, the HTML parser (built on goquery), the clock
  reading, the conversion \<open>time.Duration(float64(time.Second) / rps)\<close>, and the network:
  \<open>attemptsFor n u\<close> is what the attempts of the \<open>n\<close>-th call of \<open>Fetcher.Fetch\<close> (counted
  from 0), made for URL \<open>u\<close>, meet. \<open>linkJobsSent\<close> is the number of link-check jobs the
  feed loop of \<open>runLinkChecks\<close> submits before the context is cancelled (\<open>None\<close>: the
  context stays live).
\<close>

record env =
  url_Parse :: "string \<Rightarrow> error + url_URL"
  url_String :: "url_URL \<Rightarrow> string"
  url_ResolveReference :: "url_URL \<Rightarrow> url_URL \<Rightarrow> url_URL"
  url_Hostname :: "url_URL \<Rightarrow> string"
  url_Port :: "url_URL \<Rightarrow> string"
  net_JoinHostPort :: "string \<Rightarrow> string \<Rightarrow> string"
  strings_ToLower :: "string \<Rightarrow> string"
  strings_TrimSpace :: "string \<Rightarrow> string"
  strconv_ParseInt :: "string \<Rightarrow> error + int"
  strconv_Quote :: "string \<Rightarrow> string"
  http_StatusText :: "int \<Rightarrow> string"
  fmt_d :: "int \<Rightarrow> string"
  time_RFC3339 :: "instant \<Rightarrow> string"
  json_Marshal :: "Report \<Rightarrow> bool \<Rightarrow> error + string"
  ParseHTML :: "string option \<Rightarrow> error + ParseResult"
  clock_Now :: instant
  rpsInterval :: "real \<Rightarrow> duration"
  attemptsFor :: "nat \<Rightarrow> string \<Rightarrow> nat \<Rightarrow> attempt"
  linkJobsSent :: "nat option"

section \<open>internal/urlutil\<close>

definition Resolve :: "env \<Rightarrow> url_URL \<Rightarrow> string \<Rightarrow> string option" where
  "Resolve E base href =
     (let trimmed = strings_TrimSpace E href in
      if trimmed = [] then None
      else if take 1 trimmed = ''#'' then None
      else (case url_Parse E trimmed of
              Inl e \<Rightarrow> None
            | Inr parsed \<Rightarrow>
                if Scheme parsed \<noteq> [] \<and> Scheme parsed \<noteq> ''http'' \<and> Scheme parsed \<noteq> ''https''
                then None
                else let resolved = (if Scheme parsed = []
                                     then url_ResolveReference E base parsed else parsed);
                         resolved = resolved\<lparr>Fragment := []\<rparr>
                     in if Scheme resolved \<noteq> ''http'' \<and> Scheme resolved \<noteq> ''https''
                        then None
                        else Some (url_String E resolved)))"

definition SameOrigin :: "env \<Rightarrow> url_URL \<Rightarrow> string \<Rightarrow> bool" where
  "SameOrigin E base raw =
     (case url_Parse E raw of
        Inl e \<Rightarrow> False
      | Inr parsed \<Rightarrow> Scheme parsed = Scheme base \<and> Host parsed = Host base)"


section \<open>crawler: helpers of the report\<close>

definition statusOK :: string where "statusOK = ''ok''"
definition statusError :: string where "statusError = ''error''"

definition emptySEO :: SEO where
  "emptySEO = \<lparr>HasTitle = False, Title = [], HasDescription = False, Description = [],
     HasH1 = False\<rparr>"

definition emptyBrokenLink :: BrokenLink where
  "emptyBrokenLink = \<lparr>bl_URL = [], bl_StatusCode = 0, bl_Error = []\<rparr>"

definition newReport :: "env \<Rightarrow> Options \<Rightarrow> Report" where
  "newReport E opts =
     \<lparr>RootURL = opt_URL opts, report_Depth = opt_Depth opts,
      GeneratedAt = time_RFC3339 E (clock_Now E), Pages = []\<rparr>"

definition newPage :: "env \<Rightarrow> string \<Rightarrow> int \<Rightarrow> instant \<Rightarrow> Page" where
  "newPage E pageURL d t =
     \<lparr>URL = pageURL, Depth = d, HTTPStatus = 0, Status = [], Error = [], SEO = emptySEO,
      BrokenLinks = Some [], Assets = Some [], DiscoveredAt = time_RFC3339 E t\<rparr>"

definition rateInterval :: "env \<Rightarrow> Options \<Rightarrow> duration" where
  "rateInterval E opts =
     (if RPS opts > 0
      then (let i = rpsInterval E (RPS opts) in if i \<le> 0 then 1 else i)
      else let delay = (if Delay opts < 0 then 0 else Delay opts)
           in if delay > 0 then delay else 0)"

definition parseRootURL :: "env \<Rightarrow> string \<Rightarrow> error + url_URL" where
  "parseRootURL E rawURL =
     (case url_Parse E rawURL of
        Inl e \<Rightarrow> Inl e
      | Inr parsed \<Rightarrow>
          if Scheme parsed = [] \<or> Host parsed = [] then Inl (Plain ''missing scheme or host'')
          else let parsed = (if Path parsed = ''/'' then parsed\<lparr>Path := [], RawPath := []\<rparr>
                             else parsed)
               in Inr (parsed\<lparr>Fragment := []\<rparr>))"

text \<open>The crawler package's own \<open>errorString\<close> and \<open>errorForStatus\<close>.\<close>

definition errorString :: "env \<Rightarrow> error option \<Rightarrow> int \<Rightarrow> string" where
  "errorString E e code =
     (case e of
        Some x \<Rightarrow> error_Error x
      | None \<Rightarrow> if code \<ge> 400 then statusText (http_StatusText E) (fmt_d E) code
                else [])"

definition crawler_errorForStatus :: "env \<Rightarrow> error option \<Rightarrow> int \<Rightarrow> error option" where
  "crawler_errorForStatus E e code =
     (case e of
        Some x \<Rightarrow> Some x
      | None \<Rightarrow> if code \<ge> 400
                then Some (Plain (statusText (http_StatusText E) (fmt_d E) code))
                else None)"

fun strings_Join :: "string list \<Rightarrow> string \<Rightarrow> string" where
  "strings_Join [] sep = []"
| "strings_Join [x] sep = x"
| "strings_Join (x # y # ys) sep = x @ sep @ strings_Join (y # ys) sep"

definition parseContentLength :: "env \<Rightarrow> string \<Rightarrow> error + int" where
  "parseContentLength E v =
     (let trimmed = strings_TrimSpace E v in
      case strconv_ParseInt E trimmed of
        Inl e \<Rightarrow> Inl (Wrap (''invalid content length '' @ strconv_Quote E trimmed @ '': ''
                          @ error_Error e) e)
      | Inr parsedValue \<Rightarrow>
          if parsedValue < 0
          then Inl (Plain (''invalid content length '' @ strconv_Quote E trimmed
                          @ '': negative value''))
          else Inr parsedValue)"

definition sizeFromResult :: "env \<Rightarrow> Result \<Rightarrow> int \<times> error option" where
  "sizeFromResult E result =
     (let contentLength = header_Get (Header result) ''Content-Length'' in
      if contentLength \<noteq> [] then
        (case parseContentLength E contentLength of
           Inl e \<Rightarrow> (0, Some e)
         | Inr v \<Rightarrow> (v, None))
      else (case Body result of
              None \<Rightarrow> (0, Some (Plain ''unable to determine asset size''))
            | Some b \<Rightarrow> (int (length b), None)))"

section \<open>crawler: the fetch cache, link checks and assets\<close>

text \<open>
  One call of \<open>Fetcher.Fetch\<close> from the crawler: the retry loop above, run against what
  the environment holds for this call, and logged.
\<close>

definition fetcher_Fetch :: "env \<Rightarrow> analyzer \<Rightarrow> string \<Rightarrow> outcome \<times> analyzer" where
  "fetcher_Fetch E a rawURL =
     (returned (Fetch (http_StatusText E) (fmt_d E) (fetch a)
        (attemptsFor E (length (fetchLog a)) rawURL)),
      a\<lparr>fetchLog := fetchLog a @ [rawURL]\<rparr>)"

text \<open>
  \<open>fetchWithCache\<close> as one goroutine runs it when no other is inside it for the same URL
  and the semaphore is acquired: a cached entry is returned, otherwise the fetcher is
  called and its result stored. (The interleaving of several callers is the subject of
  the last section.)
\<close>

definition fetchWithCache :: "env \<Rightarrow> analyzer \<Rightarrow> string \<Rightarrow> outcome \<times> analyzer" where
  "fetchWithCache E a absoluteURL =
     (case map_of (fetchCache a) absoluteURL of
        Some cached \<Rightarrow> (cached, a)
      | None \<Rightarrow>
          (let (r, a') = fetcher_Fetch E a absoluteURL
           in (r, a'\<lparr>fetchCache := (absoluteURL, r) # fetchCache a'\<rparr>)))"

definition checkBrokenLink :: "env \<Rightarrow> analyzer \<Rightarrow> string \<Rightarrow> (BrokenLink \<times> bool) \<times> analyzer" where
  "checkBrokenLink E a absoluteURL =
     (let ((result, e), a') = fetchWithCache E a absoluteURL;
          isBroken = (e \<noteq> None \<or> StatusCode result \<ge> StatusBadRequest)
      in if \<not> isBroken then ((emptyBrokenLink, False), a')
         else ((\<lparr>bl_URL = absoluteURL, bl_StatusCode = StatusCode result,
                  bl_Error = errorString E e (StatusCode result)\<rparr>, True), a'))"

definition canonicalBrokenURL :: "env \<Rightarrow> string \<Rightarrow> string" where
  "canonicalBrokenURL E raw =
     (if raw = [] then []
      else (case url_Parse E raw of
              Inl e \<Rightarrow> raw
            | Inr parsed \<Rightarrow>
                (let parsed = parsed\<lparr>Fragment := []\<rparr>;
                     parsed = parsed\<lparr>Scheme := strings_ToLower E (Scheme parsed)\<rparr>;
                     host = strings_ToLower E (url_Hostname E parsed);
                     port = url_Port E parsed;
                     port = (if Scheme parsed = ''http'' \<and> port = ''80'' then []
                             else if Scheme parsed = ''https'' \<and> port = ''443'' then []
                             else port);
                     parsed = (if port = [] then parsed\<lparr>Host := host\<rparr>
                               else parsed\<lparr>Host := net_JoinHostPort E host port\<rparr>);
                     parsed = (if Path parsed = ''/'' then parsed\<lparr>Path := []\<rparr> else parsed);
                     parsed = parsed\<lparr>RawPath := []\<rparr>;
                     parsed = (if RawQuery parsed = [] then parsed\<lparr>ForceQuery := False\<rparr>
                               else parsed)
                 in url_String E parsed)))"

text \<open>The loop of \<open>resolveLinks\<close>; \<open>sn\<close> is the set \<open>seen\<close>, \<open>acc\<close> the slice \<open>resolved\<close>.\<close>

fun resolveLoop :: "env \<Rightarrow> url_URL \<Rightarrow> string list \<Rightarrow> string list \<Rightarrow> string list \<Rightarrow> string list" where
  "resolveLoop E base [] sn acc = acc"
| "resolveLoop E base (l # ls) sn acc =
     (case Resolve E base l of
        None \<Rightarrow> resolveLoop E base ls sn acc
      | Some absoluteURL \<Rightarrow>
          if absoluteURL \<in> set sn then resolveLoop E base ls sn acc
          else resolveLoop E base ls (absoluteURL # sn) (acc @ [absoluteURL]))"

definition resolveLinks :: "env \<Rightarrow> string \<Rightarrow> string list \<Rightarrow> string list option" where
  "resolveLinks E pageURL ls =
     (case url_Parse E pageURL of
        Inl e \<Rightarrow> None
      | Inr base \<Rightarrow> Some (resolveLoop E base ls [] []))"

text \<open>
  \<open>runLinkChecks\<close>: the jobs submitted to the pool, each answered by \<open>checkBrokenLink\<close>
  and stored at its index; the jobs not submitted keep the zero \<open>linkCheck\<close> and
  \<open>processed = false\<close>.
\<close>

fun checkAll :: "env \<Rightarrow> analyzer \<Rightarrow> string list \<Rightarrow> linkCheck list \<times> analyzer" where
  "checkAll E a [] = ([], a)"
| "checkAll E a (u # us) =
     (let ((bl, b), a1) = checkBrokenLink E a u;
          (rest, a2) = checkAll E a1 us
      in (\<lparr>broken = b, link = bl, lc_url = u\<rparr> # rest, a2))"

definition runLinkChecks ::
  "env \<Rightarrow> analyzer \<Rightarrow> string list \<Rightarrow> (linkCheck list \<times> bool list) \<times> analyzer" where
  "runLinkChecks E a resolved =
     (if resolved = [] then (([], []), a)
      else let sent = (case linkJobsSent E of None \<Rightarrow> length resolved
                       | Some n \<Rightarrow> min n (length resolved));
               (checked, a') = checkAll E a (take sent resolved);
               unsent = length resolved - sent
           in ((checked @ replicate unsent \<lparr>broken = False, link = emptyBrokenLink, lc_url = []\<rparr>,
                replicate sent True @ replicate unsent False), a'))"

text \<open>The loop of \<open>buildLinkResults\<close> over the results paired with their flags.\<close>

fun buildLoop ::
  "env \<Rightarrow> (linkCheck \<times> bool) list \<Rightarrow> BrokenLink list \<Rightarrow> string list \<Rightarrow> string list \<Rightarrow>
   BrokenLink list \<times> string list" where
  "buildLoop E [] brokenLinks crawlLinks seenBroken = (brokenLinks, crawlLinks)"
| "buildLoop E ((res, p) # rest) brokenLinks crawlLinks seenBroken =
     (if \<not> p then buildLoop E rest brokenLinks crawlLinks seenBroken
      else if broken res then
        (let key = lc_url res;
             key = (if key = [] then bl_URL (link res) else key);
             key = canonicalBrokenURL E key
         in if key \<in> set seenBroken then buildLoop E rest brokenLinks crawlLinks seenBroken
            else buildLoop E rest (brokenLinks @ [(link res)\<lparr>bl_URL := key\<rparr>]) crawlLinks
                   (key # seenBroken))
      else buildLoop E rest brokenLinks (crawlLinks @ [lc_url res]) seenBroken)"

definition buildLinkResults ::
  "env \<Rightarrow> linkCheck list \<Rightarrow> bool list \<Rightarrow> BrokenLink list \<times> string list" where
  "buildLinkResults E results processed =
     (let processed = (if length processed > length results
                       then take (length results) processed else processed)
      in buildLoop E (zip (take (length processed) results) processed) [] [] [])"

definition checkLinks ::
  "env \<Rightarrow> analyzer \<Rightarrow> crawlJob \<Rightarrow> string list \<Rightarrow> (BrokenLink list \<times> string list) \<times> analyzer" where
  "checkLinks E a j ls =
     (case resolveLinks E (url j) ls of
        None \<Rightarrow> (([], []), a)
      | Some resolved \<Rightarrow>
          if length resolved = 0 then (([], []), a)
          else (let ((results, processed), a') = runLinkChecks E a resolved
                in (buildLinkResults E results processed, a')))"

fun dedupLoop :: "env \<Rightarrow> BrokenLink list \<Rightarrow> string list \<Rightarrow> BrokenLink list \<Rightarrow> BrokenLink list" where
  "dedupLoop E [] sn unique = unique"
| "dedupLoop E (l # ls) sn unique =
     (let key = canonicalBrokenURL E (bl_URL l)
      in if key \<in> set sn then dedupLoop E ls sn unique
         else dedupLoop E ls (key # sn) (unique @ [l\<lparr>bl_URL := key\<rparr>]))"

definition dedupBrokenLinks :: "env \<Rightarrow> BrokenLink list option \<Rightarrow> BrokenLink list option" where
  "dedupBrokenLinks E ls =
     (case ls of
        None \<Rightarrow> None
      | Some [] \<Rightarrow> Some []
      | Some [l] \<Rightarrow> Some [l\<lparr>bl_URL := canonicalBrokenURL E (bl_URL l)\<rparr>]
      | Some xs \<Rightarrow> Some (dedupLoop E xs [] []))"

definition fetchAssetResult :: "env \<Rightarrow> analyzer \<Rightarrow> string \<Rightarrow> assetFetchResult \<times> analyzer" where
  "fetchAssetResult E a absoluteURL =
     (let ((result, e), a') = fetcher_Fetch E a absoluteURL;
          fetchResult = \<lparr>statusCode = StatusCode result, sizeBytes = 0, afr_err = []\<rparr>;
          errMsg = (if e \<noteq> None then errorString E e (StatusCode result) else [])
      in if e \<noteq> None \<and> StatusCode result = 0 then (fetchResult\<lparr>afr_err := errMsg\<rparr>, a')
         else (let (sz, sizeErr) = sizeFromResult E result;
                   fetchResult = (if sizeErr = None then fetchResult\<lparr>sizeBytes := sz\<rparr>
                                  else fetchResult);
                   parts = (if StatusCode result \<ge> StatusBadRequest
                            then [''http status '' @ fmt_d E (StatusCode result)] else [])
                         @ (if errMsg \<noteq> [] then [errMsg] else [])
                         @ (case sizeErr of Some se \<Rightarrow> [error_Error se] | None \<Rightarrow> [])
               in (if length parts > 0 then fetchResult\<lparr>afr_err := strings_Join parts '': ''\<rparr>
                   else fetchResult, a')))"

definition buildAssetFromResult :: "string \<Rightarrow> string \<Rightarrow> assetFetchResult \<Rightarrow> Asset" where
  "buildAssetFromResult absoluteURL assetType result =
     \<lparr>asset_URL = absoluteURL, asset_Type = assetType, asset_StatusCode = statusCode result,
      SizeBytes = sizeBytes result, asset_Error = afr_err result\<rparr>"

definition getAsset :: "env \<Rightarrow> analyzer \<Rightarrow> string \<Rightarrow> string \<Rightarrow> Asset \<times> analyzer" where
  "getAsset E a absoluteURL assetType =
     (case map_of (assetCache a) absoluteURL of
        Some cached \<Rightarrow> (buildAssetFromResult absoluteURL assetType cached, a)
      | None \<Rightarrow>
          (let (r, a') = fetchAssetResult E a absoluteURL
           in (buildAssetFromResult absoluteURL assetType r,
               a'\<lparr>assetCache := (absoluteURL, r) # assetCache a'\<rparr>)))"

fun collectLoop ::
  "env \<Rightarrow> analyzer \<Rightarrow> url_URL \<Rightarrow> AssetRef list \<Rightarrow> string list \<Rightarrow> Asset list \<Rightarrow>
   Asset list \<times> analyzer" where
  "collectLoop E a base [] sn resolved = (resolved, a)"
| "collectLoop E a base (assetRef # refs) sn resolved =
     (case Resolve E base (ref_URL assetRef) of
        None \<Rightarrow> collectLoop E a base refs sn resolved
      | Some absoluteURL \<Rightarrow>
          if absoluteURL \<in> set sn then collectLoop E a base refs sn resolved
          else (let (asset, a') = getAsset E a absoluteURL (ref_Type assetRef)
                in collectLoop E a' base refs (absoluteURL # sn) (resolved @ [asset])))"

definition collectAssets ::
  "env \<Rightarrow> analyzer \<Rightarrow> string \<Rightarrow> AssetRef list \<Rightarrow> Asset list \<times> analyzer" where
  "collectAssets E a pageURL refs =
     (case url_Parse E pageURL of
        Inl e \<Rightarrow> ([], a)
      | Inr base \<Rightarrow> collectLoop E a base refs [] [])"

section \<open>crawler: one job\<close>

definition processJob :: "env \<Rightarrow> analyzer \<Rightarrow> crawlJob \<Rightarrow> pageResult \<times> analyzer" where
  "processJob E a j =
     (let pg = newPage E (url j) (depth j) (discoveredAt j);
          ((result, e), a1) = fetchWithCache E a (url j);
          pg = pg\<lparr>HTTPStatus := StatusCode result\<rparr>
      in if e \<noteq> None \<or> StatusCode result \<ge> StatusBadRequest then
           (\<lparr>job = j,
             page = pg\<lparr>Status := statusError, Error := errorString E e (StatusCode result),
                       BrokenLinks := None, Assets := None\<rparr>,
             links = [],
             err = crawler_errorForStatus E e (StatusCode result)\<rparr>, a1)
         else
           (case ParseHTML E (Body result) of
              Inl parseErr \<Rightarrow>
                (\<lparr>job = j,
                  page = pg\<lparr>Status := statusError,
                            Error := ''parse html: '' @ error_Error parseErr,
                            BrokenLinks := None, Assets := None\<rparr>,
                  links = [],
                  err = Some (Wrap (''parse html: '' @ error_Error parseErr) parseErr)\<rparr>, a1)
            | Inr parsed \<Rightarrow>
                (let pg = pg\<lparr>Status := statusOK,
                              SEO := \<lparr>HasTitle = HasTitle (parsed_SEO parsed),
                                      Title = Title (parsed_SEO parsed),
                                      HasDescription = HasDescription (parsed_SEO parsed),
                                      Description = Description (parsed_SEO parsed),
                                      HasH1 = HasH1 (parsed_SEO parsed)\<rparr>\<rparr>;
                     ((brokenLinks, pageLinks), a2) = checkLinks E a1 j (Links parsed);
                     pg = pg\<lparr>BrokenLinks := dedupBrokenLinks E (Some brokenLinks)\<rparr>;
                     (assets, a3) = collectAssets E a2 (url j) (parsed_Assets parsed);
                     pg = pg\<lparr>Assets := Some assets\<rparr>
                 in (\<lparr>job = j, page = pg, links = pageLinks, err = None\<rparr>, a3))))"


section \<open>crawler: the aggregator and the crawl\<close>

definition normalizeMaxDepth :: "int \<Rightarrow> int" where
  "normalizeMaxDepth d = (if d < 0 then 0 else d)"

definition normalizeMaxConcurrentFetch :: "Options \<Rightarrow> int" where
  "normalizeMaxConcurrentFetch opts =
     (let m = MaxConcurrentFetch opts;
          m = (if m \<le> 0 then Concurrency opts else m)
      in if m < 1 then 1 else m)"

definition linkCheckPoolSize :: "Options \<Rightarrow> int" where
  "linkCheckPoolSize opts =
     (let m = normalizeMaxConcurrentFetch opts;
          workerCount = (if 2 > m then m else 2)
      in if workerCount < 1 then 1 else workerCount)"

definition newAnalyzer :: "Options \<Rightarrow> url_URL \<Rightarrow> Fetcher \<Rightarrow> analyzer" where
  "newAnalyzer opts base f =
     \<lparr>options = opts, baseURL = base, fetch = f, maxDepth = normalizeMaxDepth (opt_Depth opts),
      fetchCache = [], assetCache = [], fetchLog = []\<rparr>"

text \<open>
  \<open>enqueue\<close> with a live context and room in the channel: the send is taken. (The
  capacity of the channel is not modelled.)
\<close>

definition enqueue :: "aggregator \<Rightarrow> crawlJob \<Rightarrow> aggregator" where
  "enqueue a j =
     (if url j \<in> set (seen (state a)) then a
      else a\<lparr>jobs := jobs a @ [j\<lparr>seq := nextSeq a\<rparr>],
             state := (state a)\<lparr>seen := url j # seen (state a)\<rparr>,
             nextSeq := nextSeq a + 1,
             pending := pending a + 1\<rparr>)"

definition closeJobsIfNeeded :: "aggregator \<Rightarrow> aggregator" where
  "closeJobsIfNeeded a =
     (if pending a \<noteq> 0 \<or> jobsClosed a then a else a\<lparr>jobsClosed := True\<rparr>)"

function flushCommitted :: "aggregator \<Rightarrow> aggregator" where
  "flushCommitted a =
     (case map_of (pendingPages a) (nextCommit a) of
        None \<Rightarrow> a
      | Some pg \<Rightarrow>
          flushCommitted
            (a\<lparr>report := (report a)\<lparr>Pages := Pages (report a) @ [pg]\<rparr>,
               pendingPages := filter (\<lambda>kv. fst kv \<noteq> nextCommit a) (pendingPages a),
               nextCommit := nextCommit a + 1\<rparr>))"
  by pat_completeness auto
termination
proof (relation "measure (\<lambda>a. length (pendingPages a))")
  show "wf (measure (\<lambda>a. length (pendingPages a)))" by simp
next
  fix a :: aggregator and pg
  assume "map_of (pendingPages a) (nextCommit a) = Some pg"
  then have "(nextCommit a, pg) \<in> set (pendingPages a)" by (rule map_of_SomeD)
  then have "length (filter (\<lambda>kv. fst kv \<noteq> nextCommit a) (pendingPages a))
      < length (pendingPages a)"
    by (intro length_filter_less [where x = "(nextCommit a, pg)"]) auto
  then show "(a\<lparr>report := (report a)\<lparr>Pages := Pages (report a) @ [pg]\<rparr>,
        pendingPages := filter (\<lambda>kv. fst kv \<noteq> nextCommit a) (pendingPages a),
        nextCommit := nextCommit a + 1\<rparr>, a) \<in> measure (\<lambda>a. length (pendingPages a))"
    by simp
qed

definition handleResult :: "env \<Rightarrow> aggregator \<Rightarrow> pageResult \<Rightarrow> aggregator" where
  "handleResult E a result =
     (let a = a\<lparr>pendingPages := (seq (job result), page result)
                  # filter (\<lambda>kv. fst kv \<noteq> seq (job result)) (pendingPages a)\<rparr>;
          a = flushCommitted a;
          a = (if depth (job result) = 0 \<and> err result \<noteq> None \<and> analysisErr (state a) = None
               then a\<lparr>state := (state a)\<lparr>analysisErr := err result\<rparr>\<rparr> else a);
          nextDepth = depth (job result) + 1
      in if nextDepth > agg_maxDepth a then a
         else foldl (\<lambda>ag l. if \<not> SameOrigin E (agg_baseURL ag) l then ag
                            else enqueue ag \<lparr>url = l, depth = nextDepth,
                                             discoveredAt = clock_Now E, seq = 0\<rparr>)
                a (links result))"

definition onResult :: "env \<Rightarrow> aggregator \<Rightarrow> pageResult \<Rightarrow> aggregator" where
  "onResult E a result =
     closeJobsIfNeeded (handleResult E (a\<lparr>pending := pending a - 1\<rparr>) result)"

text \<open>
  The crawl under its sequential schedule: one worker takes the jobs in channel order,
  and each result is handled before the next job is taken (\<open>Concurrency = 1\<close>, as in
  the repository's tests). The first argument bounds the number of jobs processed;
  \<open>None\<close> means that the bound was reached, or that the worker would block on an open,
  empty channel.
\<close>

fun drainResults ::
  "nat \<Rightarrow> env \<Rightarrow> analyzer \<Rightarrow> aggregator \<Rightarrow> (error option \<times> aggregator \<times> analyzer) option" where
  "drainResults 0 E a agg = None"
| "drainResults (Suc n) E a agg =
     (case jobs agg of
        [] \<Rightarrow> if jobsClosed agg then Some (analysisErr (state agg), agg, a) else None
      | j # rest \<Rightarrow>
          (let (result, a') = processJob E a j
           in drainResults n E a' (onResult E (agg\<lparr>jobs := rest\<rparr>) result)))"

definition run ::
  "nat \<Rightarrow> env \<Rightarrow> analyzer \<Rightarrow> Report \<Rightarrow> (error option \<times> aggregator \<times> analyzer) option" where
  "run fuel E a rep =
     (let agg = \<lparr>state = \<lparr>seen = [], analysisErr = None\<rparr>, jobs = [], pending = 0,
                 jobsClosed = False, agg_maxDepth = maxDepth a, report = rep,
                 agg_baseURL = baseURL a, nextSeq = 0, nextCommit = 0, pendingPages = []\<rparr>;
          agg = enqueue agg \<lparr>url = url_String E (baseURL a), depth = 0,
                             discoveredAt = clock_Now E, seq = 0\<rparr>;
          agg = closeJobsIfNeeded agg
      in drainResults fuel E a agg)"

text \<open>The fetcher that \<open>analyzeReport\<close> builds from the options.\<close>

definition analyzeFetcher :: "env \<Rightarrow> Options \<Rightarrow> Fetcher" where
  "analyzeFetcher E opts =
     fetcher_New (Timeout opts) (UserAgent opts) (NewWithTimer (rateInterval E opts))
       (Retries opts) (Delay opts)"

definition analyzeReport :: "nat \<Rightarrow> env \<Rightarrow> Options \<Rightarrow> (Report \<times> error option) option" where
  "analyzeReport fuel E opts =
     (let rep = newReport E opts in
      if opt_URL opts = [] then Some (rep, Some (Plain ''url is required''))
      else (case parseRootURL E (opt_URL opts) of
              Inl e \<Rightarrow>
                (let pg = (newPage E (opt_URL opts) 0 (clock_Now E))
                            \<lparr>Status := statusError, Error := ''invalid url: '' @ error_Error e\<rparr>
                 in Some (rep\<lparr>Pages := Pages rep @ [pg]\<rparr>,
                          Some (Wrap (''invalid root url: '' @ error_Error e) e)))
            | Inr base \<Rightarrow>
                (let base = base\<lparr>Fragment := []\<rparr>;
                     rootURL = url_String E base;
                     rep = rep\<lparr>RootURL := rootURL\<rparr>
                 in if HTTPClient opts = None then
                      (let pg = (newPage E rootURL 0 (clock_Now E))
                                  \<lparr>Status := statusError, Error := ''http client is required''\<rparr>
                       in Some (rep\<lparr>Pages := Pages rep @ [pg]\<rparr>,
                                Some (Plain ''http client is required'')))
                    else (case run fuel E (newAnalyzer opts base (analyzeFetcher E opts)) rep of
                            None \<Rightarrow> None
                          | Some (analysisError, agg, a) \<Rightarrow> Some (report agg, analysisError)))))"

section \<open>crawler: emitting the report\<close>

text \<open>Go's \<open><\<close> on strings: bytewise lexicographic.\<close>

fun string_less :: "string \<Rightarrow> string \<Rightarrow> bool" where
  "string_less [] [] = False"
| "string_less [] (y # ys) = True"
| "string_less (x # xs) [] = False"
| "string_less (x # xs) (y # ys) =
     ((of_char x :: nat) < of_char y \<or> (x = y \<and> string_less xs ys))"

text \<open>
  \<open>sort.SliceStable\<close>: the stable sort by a less-than function, as insertion from the
  right, each element going before the first one that is not less than it.
\<close>

fun insertStable :: "('a \<Rightarrow> 'a \<Rightarrow> bool) \<Rightarrow> 'a \<Rightarrow> 'a list \<Rightarrow> 'a list" where
  "insertStable lt x [] = [x]"
| "insertStable lt x (y # ys) =
     (if lt y x then y # insertStable lt x ys else x # y # ys)"

definition sort_SliceStable :: "('a \<Rightarrow> 'a \<Rightarrow> bool) \<Rightarrow> 'a list \<Rightarrow> 'a list" where
  "sort_SliceStable lt xs = foldr (insertStable lt) xs []"

definition pageLess :: "Page \<Rightarrow> Page \<Rightarrow> bool" where
  "pageLess p q =
     (if Depth p \<noteq> Depth q then Depth p < Depth q else string_less (URL p) (URL q))"

definition sortPages :: "Page list \<Rightarrow> Page list" where
  "sortPages pages = sort_SliceStable pageLess pages"

definition ensureNewline :: "string \<Rightarrow> string" where
  "ensureNewline data =
     (if length data = 0 \<or> data ! (length data - 1) \<noteq> CHR 0x0A then data @ [CHR 0x0A]
      else data)"

text \<open>
  \<open>marshalReport\<close>: \<open>sortPages\<close> sorts the slice the report holds, and the report with the
  sorted pages is what the encoder gets; \<open>emitted\<close> names that value. \<open>encode\<close> is the
  choice between \<open>json.MarshalIndent\<close> (when \<open>indent\<close> is true) and \<open>json.Marshal\<close>,
  with the fallback text for an encoding error.
\<close>

definition emitted :: "Report \<Rightarrow> Report" where
  "emitted rep = rep\<lparr>Pages := sortPages (Pages rep)\<rparr>"

definition encode :: "env \<Rightarrow> Report \<Rightarrow> bool \<Rightarrow> string" where
  \<open>encode E rep indent =
     (case json_Marshal E rep indent of
        Inl e \<Rightarrow> ''{"error":"failed to marshal report"}''
      | Inr d \<Rightarrow> d)\<close>

definition marshalReport :: "env \<Rightarrow> Report \<Rightarrow> bool \<Rightarrow> string" where
  "marshalReport E rep indent =
     (let rep = emitted rep;
          data = encode E rep indent
      in ensureNewline data)"


text \<open>The order the report promises: ascending depth, then ascending URL.\<close>

definition pageOrdered :: "Page \<Rightarrow> Page \<Rightarrow> bool" where
  "pageOrdered p q =
     (Depth p < Depth q \<or>
      (Depth p = Depth q \<and> (URL p = URL q \<or> string_less (URL p) (URL q))))"




section \<open>A small environment for evaluation\<close>

text \<open>
  Concrete inputs need concrete library functions. \<open>exampleEnv\<close> stands in for the
  standard library on the few URLs of the examples: \<open>url.Parse\<close> is a table of those
  URLs, \<open>String\<close> and \<open>ResolveReference\<close> are written for URLs made of a scheme, a host
  and an absolute path, and the strings of the examples are in lower case without
  surrounding space. The site is a table from URL to response (404 for every other
  URL, as the repository's fixture client answers), each attempt meets a live context,
  and the HTML parser is a table from body to the links of the page.
\<close>

definition mkURL :: "string \<Rightarrow> string \<Rightarrow> string \<Rightarrow> url_URL" where
  "mkURL s h p = \<lparr>Scheme = s, Host = h, Path = p, RawPath = [], ForceQuery = False,
     RawQuery = [], Fragment = []\<rparr>"

definition exampleURLs :: "(string \<times> url_URL) list" where
  "exampleURLs =
     [(''https://example.com'', mkURL ''https'' ''example.com'' []),
      (''https://example.com/'', mkURL ''https'' ''example.com'' ''/''),
      (''https://example.com/missing'', mkURL ''https'' ''example.com'' ''/missing''),
      (''https://example.com/child'', mkURL ''https'' ''example.com'' ''/child''),
      (''https://evil.test/broken'', mkURL ''https'' ''evil.test'' ''/broken''),
      (''/missing'', mkURL [] [] ''/missing''),
      (''/child'', mkURL [] [] ''/child'')]"

definition example_Parse :: "string \<Rightarrow> error + url_URL" where
  "example_Parse s =
     (case map_of exampleURLs s of Some u \<Rightarrow> Inr u | None \<Rightarrow> Inl (Plain ''parse error''))"

definition example_String :: "url_URL \<Rightarrow> string" where
  "example_String u =
     (if Scheme u = [] then [] else Scheme u @ '':'')
     @ (if Host u = [] then [] else ''//'' @ Host u)
     @ Path u
     @ (if Fragment u = [] then [] else ''#'' @ Fragment u)"

definition example_ResolveReference :: "url_URL \<Rightarrow> url_URL \<Rightarrow> url_URL" where
  "example_ResolveReference base ref =
     (if Scheme ref \<noteq> [] then ref
      else if Host ref \<noteq> [] then ref\<lparr>Scheme := Scheme base\<rparr>
      else ref\<lparr>Scheme := Scheme base, Host := Host base\<rparr>)"

definition example_StatusText :: "int \<Rightarrow> string" where
  "example_StatusText c =
     (if c = 200 then ''OK'' else if c = 404 then ''Not Found''
      else if c = 500 then ''Internal Server Error'' else [])"

text \<open>June 1, 2024, 12:34:56 UTC, the instant of the repository's fixture clock.\<close>

definition exampleNow :: instant where
  "exampleNow = \<lparr>wallSec = 63852842096, wallNsec = 0\<rparr>"

definition response :: "int \<Rightarrow> string \<Rightarrow> Result" where
  "response c b = \<lparr>StatusCode = c, Header = [], Body = Some b\<rparr>"

definition exampleEnv :: "(string \<times> Result) list \<Rightarrow> (string \<times> string list) list \<Rightarrow> env" where
  "exampleEnv site html =
     \<lparr>url_Parse = example_Parse,
      url_String = example_String,
      url_ResolveReference = example_ResolveReference,
      url_Hostname = (\<lambda>u. takeWhile (\<lambda>c. c \<noteq> CHR '':'') (Host u)),
      url_Port = (\<lambda>u. drop 1 (dropWhile (\<lambda>c. c \<noteq> CHR '':'') (Host u))),
      net_JoinHostPort = (\<lambda>h p. h @ '':'' @ p),
      strings_ToLower = (\<lambda>s. s),
      strings_TrimSpace = (\<lambda>s. s),
      strconv_ParseInt = (\<lambda>s. Inl (Plain ''invalid syntax'')),
      strconv_Quote = (\<lambda>s. s),
      http_StatusText = example_StatusText,
      fmt_d = (\<lambda>n. []),
      time_RFC3339 = (\<lambda>t. ''2024-06-01T12:34:56Z''),
      json_Marshal = (\<lambda>r i. Inr []),
      ParseHTML = (\<lambda>b. Inr \<lparr>parsed_SEO = emptySEO,
                             Links = (case b of None \<Rightarrow> []
                                      | Some body \<Rightarrow> (case map_of html body of
                                                        None \<Rightarrow> [] | Some ls \<Rightarrow> ls)),
                             parsed_Assets = []\<rparr>),
      clock_Now = exampleNow,
      rpsInterval = (\<lambda>r. 0),
      attemptsFor = (\<lambda>n u i. \<lparr>fetched = (case map_of site u of
                                            Some r \<Rightarrow> (r, None)
                                          | None \<Rightarrow> (response 404 ''not found'', None)),
                               ctxErr = None, sleepErr = None\<rparr>),
      linkJobsSent = None\<rparr>"

definition exampleOptions :: "string \<Rightarrow> int \<Rightarrow> Options" where
  "exampleOptions u d =
     \<lparr>opt_URL = u, opt_Depth = d, Retries = 0, Delay = 0, Timeout = Second, RPS = 0,
      UserAgent = ''test-agent'', Concurrency = 1, MaxConcurrentFetch = 0,
      IndentJSON = False, HTTPClient = Some Client\<rparr>"


section \<open>crawler: concurrent callers of the fetch cache\<close>

text \<open>
  Several goroutines inside \<open>fetchWithCache\<close> at once, as an interleaving of atomic
  steps. A caller is at one of the places where the function can be between two steps:
  before taking \<open>fetchMu\<close> (\<open>Start\<close>), in the \<open>select\<close> on the entry's \<open>ready\<close> channel
  and \<open>ctx.Done()\<close> (\<open>AwaitReady\<close>), in \<open>acquireFetch\<close> (\<open>Acquiring\<close>), inside
  \<open>a.fetch.Fetch\<close> (\<open>Fetching\<close>), or back with its result (\<open>Returned\<close>). Each place
  carries the URL and the entry the caller holds; \<open>Returned\<close> also records whether the
  caller had inserted the entry itself. Entries are numbered in the order they are
  allocated.
\<close>

datatype pc =
    Start string
  | AwaitReady string nat
  | Acquiring string nat
  | Fetching string nat
  | Returned string nat bool outcome

record centry =
  stored :: outcome
  ready :: bool

record cstate =
  cache :: "(string \<times> nat) list"
  entries :: "centry list"
  freeSlots :: nat
  ctx :: "error option"
  callers :: "pc list"
  fetchCalls :: "string list"

text \<open>
  The steps. \<open>Enter\<close> is the section under the mutex (lookup, and insertion of a
  not-yet-ready entry if there is none). \<open>ReadyWins\<close> and \<open>DoneWins\<close> are the two cases
  of the follower's \<open>select\<close>. \<open>AcquireOK\<close> takes a slot of the semaphore and enters the
  fetcher; \<open>AcquireFail\<close> is the failed acquisition of a cancelled context: the entry
  is deleted from the map, filled with the cancellation error and signalled.
  \<open>FetchReturn\<close> is the return of the fetcher with some result, stored in the entry
  before \<open>ready\<close> is closed and the slot released. \<open>Cancel\<close> cancels the context.

  The writes of an entry and the closing of its \<open>ready\<close> channel are one step: only the
  caller that inserted the entry writes it, and the other callers read it only after
  \<open>ready\<close> is closed. In \<open>AcquireFail\<close> the deletion from the map (under the mutex) is
  part of that step as well; taking it at the moment of the deletion allows every order
  of steps of the other callers that the code allows. \<open>AcquireOK\<close> does not look at the
  context: the acquisition of a free slot and the cancellation of the context can fall
  in either order. The fetcher's result is a parameter of \<open>FetchReturn\<close>: any result
  can come back.
\<close>

datatype event =
    Enter nat
  | ReadyWins nat
  | DoneWins nat
  | AcquireOK nat
  | AcquireFail nat
  | FetchReturn nat outcome
  | Cancel error

definition setCaller :: "cstate \<Rightarrow> nat \<Rightarrow> pc \<Rightarrow> cstate" where
  "setCaller s t p = s\<lparr>callers := (callers s)[t := p]\<rparr>"

fun step :: "cstate \<Rightarrow> event \<Rightarrow> cstate option" where
  "step s (Enter t) =
     (if t < length (callers s) then
        (case callers s ! t of
           Start u \<Rightarrow>
             (case map_of (cache s) u of
                Some e \<Rightarrow> Some (setCaller s t (AwaitReady u e))
              | None \<Rightarrow>
                  (let e = length (entries s)
                   in Some (setCaller
                        (s\<lparr>cache := (u, e) # cache s,
                           entries := entries s @ [\<lparr>stored = (emptyResult, None), ready = False\<rparr>]\<rparr>)
                        t (Acquiring u e))))
         | _ \<Rightarrow> None)
      else None)"
| "step s (ReadyWins t) =
     (if t < length (callers s) then
        (case callers s ! t of
           AwaitReady u e \<Rightarrow>
             if e < length (entries s) \<and> ready (entries s ! e)
             then Some (setCaller s t (Returned u e False (stored (entries s ! e))))
             else None
         | _ \<Rightarrow> None)
      else None)"
| "step s (DoneWins t) =
     (if t < length (callers s) then
        (case callers s ! t of
           AwaitReady u e \<Rightarrow>
             (case ctx s of
                Some ce \<Rightarrow> Some (setCaller s t (Returned u e False (emptyResult, Some ce)))
              | None \<Rightarrow> None)
         | _ \<Rightarrow> None)
      else None)"
| "step s (AcquireOK t) =
     (if t < length (callers s) then
        (case callers s ! t of
           Acquiring u e \<Rightarrow>
             if freeSlots s > 0
             then Some (setCaller
                    (s\<lparr>freeSlots := freeSlots s - 1, fetchCalls := fetchCalls s @ [u]\<rparr>)
                    t (Fetching u e))
             else None
         | _ \<Rightarrow> None)
      else None)"
| "step s (AcquireFail t) =
     (if t < length (callers s) then
        (case callers s ! t of
           Acquiring u e \<Rightarrow>
             (case ctx s of
                Some ce \<Rightarrow>
                  Some (setCaller
                    (s\<lparr>cache := filter (\<lambda>kv. fst kv \<noteq> u) (cache s),
                       entries := (entries s)[e := \<lparr>stored = (emptyResult, Some ce), ready = True\<rparr>]\<rparr>)
                    t (Returned u e True (emptyResult, Some ce)))
              | None \<Rightarrow> None)
         | _ \<Rightarrow> None)
      else None)"
| "step s (FetchReturn t r) =
     (if t < length (callers s) then
        (case callers s ! t of
           Fetching u e \<Rightarrow>
             Some (setCaller
               (s\<lparr>entries := (entries s)[e := \<lparr>stored = r, ready = True\<rparr>],
                  freeSlots := freeSlots s + 1\<rparr>)
               t (Returned u e True r))
         | _ \<Rightarrow> None)
      else None)"
| "step s (Cancel ce) =
     (case ctx s of None \<Rightarrow> Some (s\<lparr>ctx := Some ce\<rparr>) | Some x \<Rightarrow> None)"

fun exec :: "cstate \<Rightarrow> event list \<Rightarrow> cstate option" where
  "exec s [] = Some s"
| "exec s (ev # evs) = (case step s ev of None \<Rightarrow> None | Some s' \<Rightarrow> exec s' evs)"

text \<open>
  The start of an invocation: an empty cache, a semaphore of \<open>n\<close> slots, a live
  context, and one caller for each URL of the list, none of which has begun.
\<close>

definition initial :: "nat \<Rightarrow> string list \<Rightarrow> cstate" where
  "initial n us =
     \<lparr>cache = [], entries = [], freeSlots = n, ctx = None, callers = map Start us,
      fetchCalls = []\<rparr>"

text \<open>
  What holds of every caller at every moment of a run, used to prove the properties of
  the cache. \<open>owned p\<close> is the entry a caller at \<open>p\<close> has inserted and not yet filled.
  A caller in \<open>acquireFetch\<close> or in the fetcher holds an entry that is not ready; in
  \<open>acquireFetch\<close> its entry is the one the map has for its URL and the fetcher has not
  been called for that URL; in the fetcher, the call for its URL has been made. A caller
  that has returned holds either what its entry stores, the entry being ready, or, as
  a follower, the empty result with the context's error; a caller that had inserted the
  entry has called the fetcher or returns the context's error.
\<close>

fun owned :: "pc \<Rightarrow> nat option" where
  "owned (Acquiring u e) = Some e"
| "owned (Fetching u e) = Some e"
| "owned p = None"

fun callerInv :: "cstate \<Rightarrow> pc \<Rightarrow> bool" where
  "callerInv s (Start u) = True"
| "callerInv s (AwaitReady u e) = (e < length (entries s))"
| "callerInv s (Acquiring u e) =
     (e < length (entries s) \<and> \<not> ready (entries s ! e) \<and> map_of (cache s) u = Some e \<and>
      u \<notin> set (fetchCalls s))"
| "callerInv s (Fetching u e) =
     (e < length (entries s) \<and> \<not> ready (entries s ! e) \<and> u \<in> set (fetchCalls s))"
| "callerInv s (Returned u e ins r) =
     (e < length (entries s) \<and>
      ((ready (entries s ! e) \<and> r = stored (entries s ! e)) \<or>
       (\<not> ins \<and> ctx s \<noteq> None \<and> r = (emptyResult, ctx s))) \<and>
      (ins \<longrightarrow> u \<in> set (fetchCalls s) \<or> (ctx s \<noteq> None \<and> r = (emptyResult, ctx s))))"

definition cacheInv :: "cstate \<Rightarrow> bool" where
  "cacheInv s =
     (distinct (fetchCalls s) \<and>
      (\<forall>u\<in>set (fetchCalls s). map_of (cache s) u \<noteq> None) \<and>
      (\<forall>u e. map_of (cache s) u = Some e \<longrightarrow> e < length (entries s)) \<and>
      (\<forall>t<length (callers s). callerInv s (callers s ! t)) \<and>
      (\<forall>t<length (callers s). \<forall>t'<length (callers s). \<forall>e.
         owned (callers s ! t) = Some e \<and> owned (callers s ! t') = Some e \<longrightarrow> t = t'))"

text \<open>
  Two callers for the same URL and a semaphore of one slot: a run in which the second
  caller's \<open>select\<close> takes the ready signal, and a run in which the context is cancelled
  while the first caller is in the fetcher and the second caller's \<open>select\<close> takes
  \<open>ctx.Done()\<close>.
\<close>

definition followerRun :: "event list" where
  "followerRun = [Enter 0, Enter 1, AcquireOK 0, FetchReturn 0 (response 200 ''ok'', None),
     ReadyWins 1]"

definition cancelledRun :: "event list" where
  "cancelledRun = [Enter 0, Enter 1, AcquireOK 0, Cancel Canceled, DoneWins 1,
     FetchReturn 0 (response 200 ''ok'', None)]"

text \<open>
  A fetch that meets a 500 and then a 200, with a live context and an undisturbed sleep.
\<close>

definition retryOnce :: "nat \<Rightarrow> attempt" where
  "retryOnce i =
     \<lparr>fetched = (if i = 0 then (response 500 ''boom'', None) else (response 200 ''ok'', None)),
      ctxErr = None, sleepErr = None\<rparr>"

text \<open>
  A fetch whose first attempt is answered with a 200 while the context has been
  cancelled by the time the attempt returns.
\<close>

definition cancelledAfterOK :: "nat \<Rightarrow> attempt" where
  "cancelledAfterOK i =
     \<lparr>fetched = (response 200 ''ok'', None), ctxErr = Some Canceled, sleepErr = None\<rparr>"

text \<open>Three pages in the order a crawl may commit them: two children, then the root.\<close>

definition examplePage :: "string \<Rightarrow> int \<Rightarrow> Page" where
  "examplePage u d =
     \<lparr>URL = u, Depth = d, HTTPStatus = 200, Status = statusOK, Error = [], SEO = emptySEO,
      BrokenLinks = Some [], Assets = Some [], DiscoveredAt = ''2024-06-01T12:34:56Z''\<rparr>"

definition unsortedReport :: Report where
  "unsortedReport =
     \<lparr>RootURL = ''https://example.com'', report_Depth = 1,
      GeneratedAt = ''2024-06-01T12:34:56Z'',
      Pages = [examplePage ''https://example.com/b'' 1, examplePage ''https://example.com/a'' 1,
               examplePage ''https://example.com'' 0]\<rparr>"

text \<open>
  Three sites. In the first the root page links to \<open>/missing\<close>, which answers 404; in
  the second it links to a page of another origin, \<open>https://evil.test/broken\<close>, which
  answers 404 as well; in the third the root answers with status 101 and an empty body.
\<close>

definition siteMissing :: "(string \<times> Result) list" where
  "siteMissing = [(''https://example.com'', response 200 ''root'')]"

definition htmlMissing :: "(string \<times> string list) list" where
  "htmlMissing = [(''root'', [''/missing''])]"

definition htmlEvil :: "(string \<times> string list) list" where
  "htmlEvil = [(''root'', [''https://evil.test/broken''])]"





definition exampleAnalyzer :: "env \<Rightarrow> int \<Rightarrow> analyzer" where
  "exampleAnalyzer E d =
     newAnalyzer (exampleOptions ''https://example.com'' d) (mkURL ''https'' ''example.com'' [])
       (analyzeFetcher E (exampleOptions ''https://example.com'' d))"

text \<open>A fetch every attempt of which is answered with a 500.\<close>

definition alwaysBoom :: "nat \<Rightarrow> attempt" where
  "alwaysBoom i = \<lparr>fetched = (response 500 ''boom'', None), ctxErr = None, sleepErr = None\<rparr>"

text \<open>February 12, 2026, 12:00:00 UTC, the base time of the limiter's tests.\<close>

definition baseTime :: instant where
  "baseTime = \<lparr>wallSec = 63906494400, wallNsec = 0\<rparr>"

section \<open>The rate limiter at the zero instant\<close>

text \<open>
  The second call of the limiter's own test (\<open>TestLimiterWaitSecondCall\<close>): 40 ms after
  a first grant, a limiter of 100 ms reserves the slot 100 ms after the first and
  sleeps 60 ms.
\<close>

lemma limiter_second_call:
  "waits \<lparr>interval = 100 * Millisecond, last_time = zeroTime\<rparr>
     [baseTime, time_Add baseTime (40 * Millisecond)]
   = [(baseTime, None), (time_Add baseTime (100 * Millisecond), Some (60 * Millisecond))]"
  by code_simp

text \<open>
  C8: the code breaks the claim when the clock reads Go's zero instant. \<open>Wait\<close> takes
  \<open>last.IsZero()\<close> for "no grant yet", so a grant recorded at the zero instant is
  forgotten: of two calls at that instant on a limiter of 100 ms, both return at once,
  without a sleep, and the two grants are 0 apart.
\<close>

theorem limiter_zero_instant_grants:
  "NewWithTimer (100 * Millisecond)
     = Some \<lparr>interval = 100 * Millisecond, last_time = zeroTime\<rparr> \<and>
   waits \<lparr>interval = 100 * Millisecond, last_time = zeroTime\<rparr> [zeroTime, zeroTime]
     = [(zeroTime, None), (zeroTime, None)]"
  by code_simp

section \<open>The backoff of the fetcher\<close>

lemma int64_signed: "int64 x = signed_take_bit 63 x"
  by (simp add: int64_def sint_sbintrunc')

lemma int64_id: "- (2 ^ 63) \<le> x \<Longrightarrow> x < 2 ^ 63 \<Longrightarrow> int64 x = x"
  by (simp add: int64_signed signed_take_bit_int_eq_self)

lemma int64_top: "int64 (2 ^ 63) = - (2 ^ 63)"
  by (simp add: int64_def)

text \<open>
  What \<open>retryDelayFor\<close> computes from a positive retry delay \<open>d\<close>: \<open>min (d * 2^k, 2 s)\<close>
  after \<open>k\<close> doublings; no doubling overflows, since only a delay below two seconds is
  doubled.
\<close>

lemma retryDelayLoop_closed:
  "0 < d \<Longrightarrow> retryDelayLoop k d = min (d * 2 ^ k) maxRetryDelay"
proof (induction k arbitrary: d)
  case 0
  then show ?case by simp
next
  case (Suc k)
  show ?case
  proof (cases "d \<ge> maxRetryDelay")
    case True
    have one: "(1::int) \<le> 2 ^ Suc k" by (rule one_le_power) simp
    have "d * 1 \<le> d * 2 ^ Suc k"
      using Suc.prems one by (intro mult_left_mono) auto
    with True show ?thesis by simp
  next
    case False
    then have small: "d * 2 < 2 ^ 63" by (simp add: maxRetryDelay_def Second_def)
    have "int64 (d * 2) = d * 2"
      using small Suc.prems by (intro int64_id) auto
    with False Suc.IH [of "d * 2"] Suc.prems show ?thesis by (simp add: mult.assoc)
  qed
qed

lemma retryDelayFor_analyzeFetcher:
  "1 \<le> n \<Longrightarrow>
   retryDelayFor (analyzeFetcher E opts) n
     = min ((if Delay opts \<le> 0 then baseRetryDelay else Delay opts) * 2 ^ nat (n - 1))
         maxRetryDelay"
  by (simp add: retryDelayFor_def analyzeFetcher_def fetcher_New_def retryDelayLoop_closed
      baseRetryDelay_def Millisecond_def)

text \<open>
  C7: the code breaks the claim for a configuration with a positive \<open>Delay\<close>.
  \<open>analyzeReport\<close> passes \<open>opts.Delay\<close>, the rate-limiting delay, to \<open>fetcher.New\<close> as the
  retry delay, and only a delay that is not positive is replaced by the base of
  100 ms. With \<open>Delay\<close> = 500 ms and \<open>Retries\<close> = 3, a fetch that is answered with a 500
  four times makes its four attempts and sleeps 500 ms, 1 s and 2 s between them, where
  the claim's formula gives 100 ms, 200 ms and 400 ms.
\<close>

theorem backoff_uses_configured_delay:
  "attemptsMade (Fetch example_StatusText (\<lambda>n. [])
     (analyzeFetcher (exampleEnv [] [])
        ((exampleOptions ''https://example.com'' 1)\<lparr>Retries := 3, Delay := 500 * Millisecond\<rparr>))
     alwaysBoom) = 4 \<and>
   slept (Fetch example_StatusText (\<lambda>n. [])
     (analyzeFetcher (exampleEnv [] [])
        ((exampleOptions ''https://example.com'' 1)\<lparr>Retries := 3, Delay := 500 * Millisecond\<rparr>))
     alwaysBoom) = [500 * Millisecond, 1000 * Millisecond, 2000 * Millisecond] \<and>
   map (\<lambda>n. min (baseRetryDelay * 2 ^ (n - 1)) maxRetryDelay) [1, 2, 3]
     = [100 * Millisecond, 200 * Millisecond, 400 * Millisecond]"
  by code_simp

section \<open>Properties of the retry policy\<close>

lemma errors_Is_sentinel:
  "t \<in> {Canceled, DeadlineExceeded, InvalidRequest, EOF, UnexpectedEOF} \<Longrightarrow>
   errors_Is e t = (innermost e = t)"
  by (induction e) auto

lemma isContextCanceled_innermost:
  "isContextCanceled e = (innermost e = Canceled \<or> innermost e = DeadlineExceeded)"
  by (simp add: isContextCanceled_def errors_Is_sentinel)

lemma isEOFLike_innermost:
  "isEOFLike e = (innermost e = EOF \<or> innermost e = UnexpectedEOF)"
  by (simp add: isEOFLike_def errors_Is_sentinel)

lemma invalid_innermost: "errors_Is e InvalidRequest = (innermost e = InvalidRequest)"
  by (simp add: errors_Is_sentinel)

lemma as_urlError_cases:
  "as_urlError e = None \<and>
     isNetError e = (innermost e = DeadlineExceeded \<or> (\<exists>m. innermost e = NetError m))
   \<or> (\<exists>pre. as_urlError e = Some (URLErrorNil pre) \<and> innermost e = URLErrorNil pre)
   \<or> (\<exists>pre e'. as_urlError e = Some (URLError pre e') \<and> innermost e = innermost e')"
  by (induction e) auto

lemma urlErrLoop_innermost: "urlErrLoop (Some e) = networkClass (innermost e)"
proof (induction "Some e" arbitrary: e rule: urlErrLoop.induct)
  case (2 err)
  consider (none) "as_urlError err = None"
      "isNetError err = (innermost err = DeadlineExceeded \<or> (\<exists>m. innermost err = NetError m))"
    | (nil) pre where "as_urlError err = Some (URLErrorNil pre)" "innermost err = URLErrorNil pre"
    | (url) pre e' where "as_urlError err = Some (URLError pre e')" "innermost err = innermost e'"
    using as_urlError_cases [of err] by (elim disjE conjE exE) auto
  then show ?case
  proof cases
    case none
    then show ?thesis
      by (auto simp: isContextCanceled_innermost isEOFLike_innermost invalid_innermost
          networkClass_def split: error.splits)
  next
    case nil
    then show ?thesis
      by (auto simp: isContextCanceled_innermost isEOFLike_innermost invalid_innermost
          networkClass_def split: error.splits)
  next
    case url
    have "urlErrLoop (Some e') = networkClass (innermost e')"
      if "\<not> isContextCanceled err" "\<not> errors_Is err InvalidRequest" "\<not> isEOFLike err"
      using "2.hyps" [OF that url(1)] by simp
    with url show ?thesis
      by (auto simp: isContextCanceled_innermost isEOFLike_innermost invalid_innermost
          networkClass_def split: error.splits)
  qed
qed

lemma isRetryableError_innermost: "isRetryableError e = networkClass (innermost e)"
proof -
  consider (none) "as_urlError e = None"
      "isNetError e = (innermost e = DeadlineExceeded \<or> (\<exists>m. innermost e = NetError m))"
    | (nil) pre where "as_urlError e = Some (URLErrorNil pre)" "innermost e = URLErrorNil pre"
    | (url) pre e' where "as_urlError e = Some (URLError pre e')" "innermost e = innermost e'"
    using as_urlError_cases [of e] by (elim disjE conjE exE) auto
  then show ?thesis
  proof cases
    case none
    then show ?thesis
      by (auto simp: isRetryableError_def isContextCanceled_innermost isEOFLike_innermost
          invalid_innermost networkClass_def split: error.splits)
  next
    case nil
    then show ?thesis
      by (auto simp: isRetryableError_def isRetryableURLError_def isContextCanceled_innermost
          isEOFLike_innermost invalid_innermost networkClass_def split: error.splits)
  next
    case url
    then show ?thesis
      by (auto simp: isRetryableError_def isRetryableURLError_def isContextCanceled_innermost
          isEOFLike_innermost invalid_innermost urlErrLoop_innermost networkClass_def
          simp del: urlErrLoop.simps split: error.splits)
  qed
qed

lemma fetchFrom_step:
  "attemptsMade (fetchFrom st fd f env attempts a (Suc k) lastO) =
     (if retriable (env a) \<and> int a \<noteq> attempts - 1
      then attemptsMade (fetchFrom st fd f env attempts (Suc a) k (fetched (env a)))
      else Suc a)"
  by (cases "fetched (env a)")
     (auto simp: retriable_def succeeded_def shouldRetry_def Let_def split: option.splits)

lemma fetchFrom_bounds:
  "a \<le> attemptsMade (fetchFrom st fd f env attempts a k lastO) \<and>
   attemptsMade (fetchFrom st fd f env attempts a k lastO) \<le> a + k"
proof (induction k arbitrary: a lastO)
  case 0
  then show ?case by simp
next
  case (Suc k)
  show ?case
    using Suc.IH [of "Suc a" "fetched (env a)"] by (simp only: fetchFrom_step) auto
qed

lemma fetchFrom_made: "a < attemptsMade (fetchFrom st fd f env attempts a (Suc k) lastO)"
  using fetchFrom_bounds [of "Suc a" st fd f env attempts k "fetched (env a)"]
  by (simp only: fetchFrom_step) auto

lemma fetchFrom_continued:
  "a \<le> i \<Longrightarrow> Suc i < attemptsMade (fetchFrom st fd f env attempts a k lastO) \<Longrightarrow>
   retriable (env i) \<and> int i \<noteq> attempts - 1"
proof (induction k arbitrary: a lastO)
  case 0
  then show ?case by simp
next
  case (Suc k)
  show ?case
  proof (cases "retriable (env a) \<and> int a \<noteq> attempts - 1")
    case True
    show ?thesis
    proof (cases "i = a")
      case True
      with \<open>retriable (env a) \<and> int a \<noteq> attempts - 1\<close> show ?thesis by simp
    next
      case False
      with Suc.prems have "Suc a \<le> i" by simp
      moreover have "Suc i < attemptsMade (fetchFrom st fd f env attempts (Suc a) k (fetched (env a)))"
        using Suc.prems(2) True by (simp only: fetchFrom_step) simp
      ultimately show ?thesis by (rule Suc.IH)
    qed
  next
    case False
    with Suc.prems show ?thesis by (simp only: fetchFrom_step) auto
  qed
qed

lemma fetchFrom_retries:
  "a \<le> i \<Longrightarrow> i < attemptsMade (fetchFrom st fd f env attempts a k lastO) \<Longrightarrow>
   retriable (env i) \<Longrightarrow> int i \<noteq> attempts - 1 \<Longrightarrow> Suc i < a + k \<Longrightarrow>
   Suc i < attemptsMade (fetchFrom st fd f env attempts a k lastO)"
proof (induction k arbitrary: a lastO)
  case 0
  then show ?case by simp
next
  case (Suc k)
  show ?case
  proof (cases "i = a")
    case True
    with Suc.prems obtain k' where k: "k = Suc k'" by (cases k) auto
    show ?thesis
      using True Suc.prems fetchFrom_made [of "Suc a" st fd f env attempts k' "fetched (env a)"]
      by (simp only: fetchFrom_step k) simp
  next
    case False
    show ?thesis
    proof (cases "retriable (env a) \<and> int a \<noteq> attempts - 1")
      case True
      have "Suc i < attemptsMade (fetchFrom st fd f env attempts (Suc a) k (fetched (env a)))"
      proof (rule Suc.IH)
        show "Suc a \<le> i" using False Suc.prems by simp
        show "i < attemptsMade (fetchFrom st fd f env attempts (Suc a) k (fetched (env a)))"
          using Suc.prems(2) True by (simp only: fetchFrom_step) simp
        show "retriable (env i)" by fact
        show "int i \<noteq> attempts - 1" by fact
        show "Suc i < Suc a + k" using Suc.prems by simp
      qed
      then show ?thesis using True by (simp only: fetchFrom_step) simp
    next
      case F: False
      with False Suc.prems show ?thesis by (simp only: fetchFrom_step) auto
    qed
  qed
qed

lemma fetchFrom_returned:
  assumes "attemptsMade (fetchFrom st fd f env attempts a (Suc k) lastO) = Suc n"
    and "int (a + Suc k) = attempts"
  shows "(succeeded (fetched (env n)) \<longrightarrow>
            returned (fetchFrom st fd f env attempts a (Suc k) lastO) =
              (case ctxErr (env n) of None \<Rightarrow> (fst (fetched (env n)), None)
               | Some ce \<Rightarrow> (emptyResult, Some ce))) \<and>
         (\<not> succeeded (fetched (env n)) \<longrightarrow>
            fst (returned (fetchFrom st fd f env attempts a (Suc k) lastO)) = fst (fetched (env n)) \<and>
            snd (returned (fetchFrom st fd f env attempts a (Suc k) lastO)) \<noteq> None)"
  using assms
proof (induction k arbitrary: a lastO)
  case 0
  have n: "n = a" using 0 by (simp only: fetchFrom_step) (auto split: if_splits)
  have stop: "int a = attempts - 1" using 0 by simp
  show ?case unfolding n using stop
    by (cases "fetched (env a)")
       (auto simp: succeeded_def shouldRetry_def Let_def coalesceError_def errorForStatus_def
          StatusBadRequest_def split: option.splits)
next
  case (Suc k)
  show ?case
  proof (cases "retriable (env a) \<and> int a \<noteq> attempts - 1")
    case True
    have made: "attemptsMade (fetchFrom st fd f env attempts (Suc a) (Suc k) (fetched (env a))) = Suc n"
      using Suc.prems True by (simp only: fetchFrom_step) simp
    have ret: "returned (fetchFrom st fd f env attempts a (Suc (Suc k)) lastO) =
      returned (fetchFrom st fd f env attempts (Suc a) (Suc k) (fetched (env a)))"
      using True
      by (cases "fetched (env a)")
         (auto simp: retriable_def succeeded_def shouldRetry_def Let_def split: option.splits
           simp del: fetchFrom.simps(2)
           simp add: fetchFrom.simps(2) [of st fd f env attempts a "Suc k" lastO])
    have inv: "int (Suc a + Suc k) = attempts" using Suc.prems by simp
    show ?thesis unfolding ret by (rule Suc.IH [OF made inv])
  next
    case False
    have n: "n = a" using Suc.prems False by (simp only: fetchFrom_step) (auto split: if_splits)
    show ?thesis unfolding n using False
      by (cases "fetched (env a)")
         (auto simp: retriable_def succeeded_def shouldRetry_def Let_def coalesceError_def
           errorForStatus_def StatusBadRequest_def split: option.splits
           simp del: fetchFrom.simps(2)
           simp add: fetchFrom.simps(2) [of st fd f env attempts a "Suc k" lastO])
  qed
qed

text \<open>
  C6, as the claim states it, fails on its last clause: when the last attempt is a
  success but the context has been cancelled by the time it returns, \<open>Fetch\<close> returns
  \<open>Result{}\<close> with the context's error, not the result of that attempt.
\<close>

theorem fetch_cancelled_success_counterexample:
  "fetched (cancelledAfterOK 0) = (response 200 ''ok'', None) \<and>
   attemptsMade (Fetch example_StatusText (\<lambda>n. [])
      (analyzeFetcher (exampleEnv [] []) (exampleOptions ''https://example.com'' 1))
      cancelledAfterOK) = 1 \<and>
   returned (Fetch example_StatusText (\<lambda>n. [])
      (analyzeFetcher (exampleEnv [] []) (exampleOptions ''https://example.com'' 1))
      cancelledAfterOK) = (emptyResult, Some Canceled) \<and>
   (emptyResult, Some Canceled) \<noteq> (response 200 ''ok'', None)"
  by code_simp

text \<open>
  C6 (amended): for every call of \<open>Fetch\<close> whose number of retries is not negative (and
  below the largest \<open>int\<close>): at least one and at most \<open>retries + 1\<close> attempts are made; a
  successful attempt (no error, status below 400) ends the loop; an attempt that is not
  to be retried ends it too, and one that is to be retried is followed by another as
  long as fewer than \<open>retries\<close> retries were made. An attempt is to be retried when it
  failed with a 429, a status of 500 or more, or an error whose innermost error (under
  any nesting of \<open>*url.Error\<close> and \<open>%w\<close> wrappers) is network-class, while the context
  is live and the backoff sleep is not interrupted; so any other 4xx, an invalid
  request, an unsupported scheme and a cancelled or expired context stop the loop at
  once. The result of the last attempt is returned, with an error if that attempt
  failed; the one exception is a successful last attempt that returns after the context
  was cancelled, for which the empty result and the context's error are returned.
\<close>

theorem fetch_retry_policy:
  assumes "0 \<le> retries f" and "retries f + 1 < 2 ^ 63"
  shows "0 < attemptsMade (Fetch st fd f env) \<and>
    int (attemptsMade (Fetch st fd f env)) \<le> retries f + 1 \<and>
    (\<forall>i < attemptsMade (Fetch st fd f env).
        succeeded (fetched (env i)) \<longrightarrow> attemptsMade (Fetch st fd f env) = Suc i) \<and>
    (\<forall>i < attemptsMade (Fetch st fd f env).
        \<not> retriable (env i) \<longrightarrow> attemptsMade (Fetch st fd f env) = Suc i) \<and>
    (\<forall>i < attemptsMade (Fetch st fd f env).
        retriable (env i) \<and> int i < retries f \<longrightarrow> Suc i < attemptsMade (Fetch st fd f env)) \<and>
    (\<forall>s. isRetryable s None = (s = 429 \<or> 500 \<le> s)) \<and>
    (\<forall>s e. isRetryable s (Some e) = networkClass (innermost e)) \<and>
    (\<forall>n. attemptsMade (Fetch st fd f env) = Suc n \<longrightarrow>
        (succeeded (fetched (env n)) \<longrightarrow>
           returned (Fetch st fd f env) =
             (case ctxErr (env n) of None \<Rightarrow> (fst (fetched (env n)), None)
              | Some ce \<Rightarrow> (emptyResult, Some ce))) \<and>
        (\<not> succeeded (fetched (env n)) \<longrightarrow>
           fst (returned (Fetch st fd f env)) = fst (fetched (env n)) \<and>
           snd (returned (Fetch st fd f env)) \<noteq> None))"
proof -
  let ?attempts = "int64 (retries f + 1)"
  let ?R = "fetchFrom st fd f env ?attempts 0 (nat ?attempts) (emptyResult, None)"
  have R: "Fetch st fd f env = ?R" by (simp add: Fetch_def Let_def)
  have status: "\<forall>s. isRetryable s None = (s = 429 \<or> 500 \<le> s)"
    by (auto simp: isRetryable_def StatusTooManyRequests_def StatusInternalServerError_def)
  have errs: "\<forall>s e. isRetryable s (Some e) = networkClass (innermost e)"
    by (simp add: isRetryable_def isRetryableError_innermost)
  have att: "?attempts = retries f + 1" using assms by (intro int64_id) auto
  obtain k where k: "nat ?attempts = Suc k" "int k = retries f"
    using att assms by (cases "nat ?attempts") auto
  have inv: "int (0 + Suc k) = ?attempts" using k att by simp
  have some: "0 < attemptsMade ?R"
    using fetchFrom_made [of 0 st fd f env ?attempts k "(emptyResult, None)"] k by simp
  have bound: "int (attemptsMade ?R) \<le> retries f + 1"
    using fetchFrom_bounds [of 0 st fd f env ?attempts "nat ?attempts" "(emptyResult, None)"] k
    by simp
  have stops: "attemptsMade ?R = Suc i" if "i < attemptsMade ?R" "\<not> retriable (env i)" for i
  proof (rule ccontr)
    assume "attemptsMade ?R \<noteq> Suc i"
    with that have "Suc i < attemptsMade ?R" by simp
    then have "retriable (env i)"
      using fetchFrom_continued [of 0 i st fd f env ?attempts "nat ?attempts" "(emptyResult, None)"]
      by simp
    with that show False by simp
  qed
  have ends: "attemptsMade ?R = Suc i" if "i < attemptsMade ?R" "succeeded (fetched (env i))" for i
    using that stops [of i] by (simp add: retriable_def)
  have goes: "Suc i < attemptsMade ?R"
    if "i < attemptsMade ?R" "retriable (env i)" "int i < retries f" for i
  proof (rule fetchFrom_retries)
    show "0 \<le> i" by simp
    show "i < attemptsMade ?R" by fact
    show "retriable (env i)" by fact
    show "int i \<noteq> ?attempts - 1" using that att by simp
    show "Suc i < 0 + nat ?attempts" using that att by simp
  qed
  have final: "(succeeded (fetched (env n)) \<longrightarrow>
         returned ?R = (case ctxErr (env n) of None \<Rightarrow> (fst (fetched (env n)), None)
            | Some ce \<Rightarrow> (emptyResult, Some ce))) \<and>
      (\<not> succeeded (fetched (env n)) \<longrightarrow>
         fst (returned ?R) = fst (fetched (env n)) \<and> snd (returned ?R) \<noteq> None)"
    if "attemptsMade ?R = Suc n" for n
    using fetchFrom_returned [of st fd f env ?attempts 0 k "(emptyResult, None)" n] that inv k
    by simp
  show ?thesis unfolding R using some bound stops ends goes final status errs by blast
qed

theorem fetch_retry_policy_witness:
  "0 \<le> retries (analyzeFetcher (exampleEnv [] [])
          ((exampleOptions ''https://example.com'' 1)\<lparr>Retries := 1\<rparr>)) \<and>
   retries (analyzeFetcher (exampleEnv [] [])
          ((exampleOptions ''https://example.com'' 1)\<lparr>Retries := 1\<rparr>)) + 1 < 2 ^ 63 \<and>
   0 < attemptsMade (Fetch example_StatusText (\<lambda>n. [])
      (analyzeFetcher (exampleEnv [] []) ((exampleOptions ''https://example.com'' 1)\<lparr>Retries := 1\<rparr>))
      retryOnce) \<and>
   attemptsMade (Fetch example_StatusText (\<lambda>n. [])
      (analyzeFetcher (exampleEnv [] []) ((exampleOptions ''https://example.com'' 1)\<lparr>Retries := 1\<rparr>))
      retryOnce) = 2 \<and>
   int (attemptsMade (Fetch example_StatusText (\<lambda>n. [])
      (analyzeFetcher (exampleEnv [] []) ((exampleOptions ''https://example.com'' 1)\<lparr>Retries := 1\<rparr>))
      retryOnce)) \<le> 1 + 1 \<and>
   returned (Fetch example_StatusText (\<lambda>n. [])
      (analyzeFetcher (exampleEnv [] []) ((exampleOptions ''https://example.com'' 1)\<lparr>Retries := 1\<rparr>))
      retryOnce) = (response 200 ''ok'', None)"
proof -
  let ?f = "analyzeFetcher (exampleEnv [] [])
      ((exampleOptions ''https://example.com'' 1)\<lparr>Retries := 1\<rparr>)"
  let ?R = "Fetch example_StatusText (\<lambda>n. []) ?f retryOnce"
  have r: "retries ?f = 1" by (simp add: analyzeFetcher_def fetcher_New_def)
  have h1: "0 \<le> retries ?f" and h2: "retries ?f + 1 < 2 ^ 63" using r by simp_all
  have made: "attemptsMade ?R = 2" by code_simp
  have ok: "succeeded (fetched (retryOnce 1))"
    by (simp add: retryOnce_def succeeded_def response_def StatusBadRequest_def)
  have live: "ctxErr (retryOnce 1) = None" "fst (fetched (retryOnce 1)) = response 200 ''ok''"
    by (simp_all add: retryOnce_def)
  have made': "attemptsMade ?R = Suc 1" using made by simp
  note pol = fetch_retry_policy [OF h1 h2, of example_StatusText "\<lambda>n. []" retryOnce]
  from pol have "int (attemptsMade ?R) \<le> retries ?f + 1" by blast
  moreover from pol have "attemptsMade ?R = Suc 1 \<longrightarrow>
      (succeeded (fetched (retryOnce 1)) \<longrightarrow>
         returned ?R = (case ctxErr (retryOnce 1) of None \<Rightarrow> (fst (fetched (retryOnce 1)), None)
            | Some ce \<Rightarrow> (emptyResult, Some ce)))"
    by blast
  ultimately show ?thesis using r made made' ok live by simp
qed

section \<open>Properties of the emitted report\<close>

lemma string_less_irrefl: "\<not> string_less s s"
  by (induction s) auto

lemma string_less_trans: "string_less a b \<Longrightarrow> string_less b c \<Longrightarrow> string_less a c"
proof (induction a b arbitrary: c rule: string_less.induct)
  case 1
  then show ?case by simp
next
  case (2 y ys)
  then show ?case by (cases c) auto
next
  case (3 x xs)
  then show ?case by simp
next
  case (4 x xs y ys)
  then show ?case by (cases c) auto
qed

lemma string_less_total: "string_less a b \<or> a = b \<or> string_less b a"
proof (induction a b rule: string_less.induct)
  case (4 x xs y ys)
  have "(of_char x :: nat) < of_char y \<or> x = y \<or> (of_char y :: nat) < of_char x"
    by (metis of_char_eq_iff linorder_less_linear)
  with 4 show ?case by auto
qed auto

lemma string_less_asym: "string_less a b \<Longrightarrow> \<not> string_less b a"
  using string_less_trans [of a b a] string_less_irrefl [of a] by blast

lemma pageOrdered_iff: "pageOrdered p q = (\<not> pageLess q p)"
  using string_less_total [of "URL p" "URL q"] string_less_asym [of "URL p" "URL q"]
    string_less_irrefl [of "URL p"]
  by (auto simp: pageOrdered_def pageLess_def)

lemma pageLess_asym: "pageLess p q \<Longrightarrow> \<not> pageLess q p"
  using string_less_asym [of "URL p" "URL q"] by (auto simp: pageLess_def split: if_splits)

lemma pageOrdered_trans: "pageOrdered p q \<Longrightarrow> pageOrdered q r \<Longrightarrow> pageOrdered p r"
  using string_less_trans [of "URL p" "URL q" "URL r"]
  by (auto simp: pageOrdered_def)

lemma mset_insertStable: "mset (insertStable lt x xs) = add_mset x (mset xs)"
  by (induction xs) auto

lemma set_insertStable: "set (insertStable lt x xs) = insert x (set xs)"
  by (induction xs) auto

lemma sorted_insertStable:
  assumes asym: "\<And>a b. lt a b \<Longrightarrow> \<not> lt b a"
    and trans: "\<And>a b c. \<not> lt b a \<Longrightarrow> \<not> lt c b \<Longrightarrow> \<not> lt c a"
    and sorted: "sorted_wrt (\<lambda>a b. \<not> lt b a) xs"
  shows "sorted_wrt (\<lambda>a b. \<not> lt b a) (insertStable lt x xs)"
  using sorted
proof (induction xs)
  case Nil
  then show ?case by simp
next
  case (Cons y ys)
  show ?case
  proof (cases "lt y x")
    case True
    then have "\<not> lt x y" by (rule asym)
    with Cons True show ?thesis by (auto simp: set_insertStable)
  next
    case False
    have "\<not> lt z x" if "z \<in> set ys" for z
    proof (rule trans [of y x z])
      show "\<not> lt y x" by fact
      show "\<not> lt z y" using Cons.prems that by simp
    qed
    with Cons False show ?thesis by auto
  qed
qed

lemma sorted_sort_SliceStable:
  assumes "\<And>a b. lt a b \<Longrightarrow> \<not> lt b a"
    and "\<And>a b c. \<not> lt b a \<Longrightarrow> \<not> lt c b \<Longrightarrow> \<not> lt c a"
  shows "sorted_wrt (\<lambda>a b. \<not> lt b a) (sort_SliceStable lt xs)"
proof -
  have step: "sorted_wrt (\<lambda>a b. \<not> lt b a) (insertStable lt x ys)"
    if "sorted_wrt (\<lambda>a b. \<not> lt b a) ys" for x ys
  proof (rule sorted_insertStable)
    show "\<And>a b. lt a b \<Longrightarrow> \<not> lt b a" by (rule assms(1))
    show "\<And>a b c. \<not> lt b a \<Longrightarrow> \<not> lt c b \<Longrightarrow> \<not> lt c a" by (rule assms(2))
    show "sorted_wrt (\<lambda>a b. \<not> lt b a) ys" by fact
  qed
  show ?thesis
    unfolding sort_SliceStable_def by (induction xs) (simp_all add: step)
qed

lemma mset_sort_SliceStable: "mset (sort_SliceStable lt xs) = mset xs"
  unfolding sort_SliceStable_def by (induction xs) (auto simp: mset_insertStable)

lemma sortPages_sorted: "sorted_wrt pageOrdered (sortPages ps)"
proof -
  have "sorted_wrt (\<lambda>p q. \<not> pageLess q p) (sort_SliceStable pageLess ps)"
  proof (rule sorted_sort_SliceStable)
    show "\<And>a b. pageLess a b \<Longrightarrow> \<not> pageLess b a" by (rule pageLess_asym)
    show "\<And>a b c. \<not> pageLess b a \<Longrightarrow> \<not> pageLess c b \<Longrightarrow> \<not> pageLess c a"
      using pageOrdered_trans by (simp flip: pageOrdered_iff)
  qed
  moreover have "(\<lambda>p q. \<not> pageLess q p) = pageOrdered"
    by (intro ext) (simp add: pageOrdered_iff)
  ultimately show ?thesis by (simp add: sortPages_def)
qed

lemma mset_sortPages: "mset (sortPages ps) = mset ps"
  by (simp add: sortPages_def mset_sort_SliceStable)

text \<open>
  C4: in every emitted report (the report \<open>marshalReport\<close> hands to the encoder) the
  pages are sorted by ascending depth and, within equal depth, by ascending URL in
  bytewise lexicographic order; they are the pages of the report it was given.
\<close>

theorem emitted_pages_sorted:
  "sorted_wrt pageOrdered (Pages (emitted rep)) \<and>
   mset (Pages (emitted rep)) = mset (Pages rep) \<and>
   marshalReport E rep indent = ensureNewline (encode E (emitted rep) indent)"
  by (simp add: emitted_def sortPages_sorted mset_sortPages marshalReport_def Let_def)

theorem emitted_pages_sorted_witness:
  "Pages (emitted unsortedReport) =
     [examplePage ''https://example.com'' 0, examplePage ''https://example.com/a'' 1,
      examplePage ''https://example.com/b'' 1] \<and>
   sorted_wrt pageOrdered (Pages (emitted unsortedReport))"
proof -
  have "Pages (emitted unsortedReport) =
     [examplePage ''https://example.com'' 0, examplePage ''https://example.com/a'' 1,
      examplePage ''https://example.com/b'' 1]"
    by code_simp
  with emitted_pages_sorted [of unsortedReport] show ?thesis by simp
qed

section \<open>Properties of a processed page\<close>

declare flushCommitted.simps [simp del]





section \<open>Properties of the aggregator\<close>










section \<open>The crawl at maximum depth 0\<close>

text \<open>
  \<open>flushCommitted\<close> touches the report, the pending pages and the commit counter only;
  a result at the maximum depth adds no job.
\<close>

lemma flushCommitted_frame:
  "jobs (flushCommitted a) = jobs a \<and> nextSeq (flushCommitted a) = nextSeq a \<and>
   agg_maxDepth (flushCommitted a) = agg_maxDepth a \<and> state (flushCommitted a) = state a \<and>
   pending (flushCommitted a) = pending a \<and> jobsClosed (flushCommitted a) = jobsClosed a \<and>
   agg_baseURL (flushCommitted a) = agg_baseURL a"
proof (induction a rule: flushCommitted.induct)
  case (1 a)
  show ?case
  proof (cases "map_of (pendingPages a) (nextCommit a)")
    case None
    then show ?thesis by (subst (1 2 3 4 5 6 7) flushCommitted.simps) simp
  next
    case (Some pg)
    with 1 [OF Some] show ?thesis by (subst (1 2 3 4 5 6 7) flushCommitted.simps) simp
  qed
qed

lemma handleResult_no_jobs:
  assumes "agg_maxDepth agg \<le> depth (job r)"
  shows "jobs (handleResult E agg r) = jobs agg \<and> nextSeq (handleResult E agg r) = nextSeq agg
    \<and> pending (handleResult E agg r) = pending agg"
  using assms by (simp add: handleResult_def Let_def flushCommitted_frame)














section \<open>The crawl returns\<close>



text \<open>More fuel does not change what the crawl returns.\<close>

lemma drainResults_mono:
  "drainResults n E a agg = Some x \<Longrightarrow> drainResults (n + k) E a agg = Some x"
proof (induction n arbitrary: a agg)
  case 0
  then show ?case by simp
next
  case (Suc n)
  show ?case
  proof (cases "jobs agg")
    case Nil
    with Suc.prems show ?thesis by (simp split: if_splits)
  next
    case (Cons j rest)
    obtain result a1 where p: "processJob E a j = (result, a1)" by (cases "processJob E a j")
    with Suc.prems Cons
    have "drainResults n E a1 (onResult E (agg\<lparr>jobs := rest\<rparr>) result) = Some x" by simp
    then have "drainResults (n + k) E a1 (onResult E (agg\<lparr>jobs := rest\<rparr>) result) = Some x"
      by (rule Suc.IH)
    with Cons p show ?thesis by simp
  qed
qed



lemma run_mono: "run n E a rep = Some x \<Longrightarrow> run (n + k) E a rep = Some x"
  by (simp add: run_def Let_def drainResults_mono)

lemma analyzeReport_mono:
  "analyzeReport n E opts = Some x \<Longrightarrow> analyzeReport (n + k) E opts = Some x"
  by (auto simp: analyzeReport_def Let_def run_mono split: sum.splits if_splits option.splits)











section \<open>Configuration errors\<close>




section \<open>Link checks at the maximum depth and across origins\<close>

text \<open>
  C1: the code does not gate link checks on the depth of the page. Input: the site of
  the repository's test \<open>TestSpec_BrokenLinks_DepthZero_NoLinkChecks\<close>, a root page
  that links to \<open>/missing\<close>, which answers 404, crawled with \<open>Depth = 0\<close>. The root page
  is at the maximum depth; \<open>processJob\<close> calls \<open>checkLinks\<close> all the same, so the
  fetcher is called for \<open>/missing\<close> and the root page carries a broken link. The claim
  and that test expect no request for \<open>/missing\<close> and no broken link. (No crawl job
  is added: that half of the claim holds.)
\<close>

theorem max_depth_page_probes_links:
  "maxDepth (exampleAnalyzer (exampleEnv siteMissing htmlMissing) 0) = 0 \<and>
   map_option (\<lambda>(rep, e). (map URL (Pages rep), map Depth (Pages rep),
         map BrokenLinks (Pages rep), e))
     (analyzeReport 2 (exampleEnv siteMissing htmlMissing)
        (exampleOptions ''https://example.com'' 0)) =
     Some ([''https://example.com''], [0],
           [Some [\<lparr>bl_URL = ''https://example.com/missing'', bl_StatusCode = 404,
                    bl_Error = ''Not Found''\<rparr>]], None) \<and>
   map_option (\<lambda>(e, agg, a). (fetchLog a, map URL (Pages (report agg)), jobs agg, nextSeq agg))
     (run 2 (exampleEnv siteMissing htmlMissing)
        (exampleAnalyzer (exampleEnv siteMissing htmlMissing) 0)
        (newReport (exampleEnv siteMissing htmlMissing)
           (exampleOptions ''https://example.com'' 0))) =
     Some ([''https://example.com'', ''https://example.com/missing''],
           [''https://example.com''], [], 1)"
proof (intro conjI)
  show "maxDepth (exampleAnalyzer (exampleEnv siteMissing htmlMissing) 0) = 0"
    by code_simp
  show "map_option (\<lambda>(rep, e). (map URL (Pages rep), map Depth (Pages rep),
         map BrokenLinks (Pages rep), e))
     (analyzeReport 2 (exampleEnv siteMissing htmlMissing)
        (exampleOptions ''https://example.com'' 0)) =
     Some ([''https://example.com''], [0],
           [Some [\<lparr>bl_URL = ''https://example.com/missing'', bl_StatusCode = 404,
                    bl_Error = ''Not Found''\<rparr>]], None)"
    by code_simp
  show "map_option (\<lambda>(e, agg, a). (fetchLog a, map URL (Pages (report agg)), jobs agg, nextSeq agg))
     (run 2 (exampleEnv siteMissing htmlMissing)
        (exampleAnalyzer (exampleEnv siteMissing htmlMissing) 0)
        (newReport (exampleEnv siteMissing htmlMissing)
           (exampleOptions ''https://example.com'' 0))) =
     Some ([''https://example.com'', ''https://example.com/missing''],
           [''https://example.com''], [], 1)"
    by code_simp
qed

text \<open>
  C5: the code does not gate link checks on the origin of the link. Input: a root page
  of \<open>https://example.com\<close> that links to \<open>https://evil.test/broken\<close>, which answers
  404, crawled with \<open>Depth = 1\<close> (the external link of the repository's test
  \<open>TestSpec_BrokenLinks_ExternalLinksAreIgnored\<close>). The link is not of the root's
  origin, yet the fetcher is called for it and the root page records it as a broken
  link. The claim and that test expect no request to \<open>evil.test\<close> and no such entry.
  (The link is not crawled: only link checking lacks the gate.)
\<close>

theorem external_link_is_probed:
  "SameOrigin (exampleEnv siteMissing htmlEvil)
      (baseURL (exampleAnalyzer (exampleEnv siteMissing htmlEvil) 1))
      ''https://evil.test/broken'' = False \<and>
   map_option (\<lambda>(rep, e). (map URL (Pages rep), map BrokenLinks (Pages rep), e))
     (analyzeReport 2 (exampleEnv siteMissing htmlEvil)
        (exampleOptions ''https://example.com'' 1)) =
     Some ([''https://example.com''],
           [Some [\<lparr>bl_URL = ''https://evil.test/broken'', bl_StatusCode = 404,
                    bl_Error = ''Not Found''\<rparr>]], None) \<and>
   map_option (\<lambda>(e, agg, a). (fetchLog a, map URL (Pages (report agg))))
     (run 2 (exampleEnv siteMissing htmlEvil)
        (exampleAnalyzer (exampleEnv siteMissing htmlEvil) 1)
        (newReport (exampleEnv siteMissing htmlEvil)
           (exampleOptions ''https://example.com'' 1))) =
     Some ([''https://example.com'', ''https://evil.test/broken''], [''https://example.com''])"
proof (intro conjI)
  show "SameOrigin (exampleEnv siteMissing htmlEvil)
      (baseURL (exampleAnalyzer (exampleEnv siteMissing htmlEvil) 1))
      ''https://evil.test/broken'' = False"
    by code_simp
  show "map_option (\<lambda>(rep, e). (map URL (Pages rep), map BrokenLinks (Pages rep), e))
     (analyzeReport 2 (exampleEnv siteMissing htmlEvil)
        (exampleOptions ''https://example.com'' 1)) =
     Some ([''https://example.com''],
           [Some [\<lparr>bl_URL = ''https://evil.test/broken'', bl_StatusCode = 404,
                    bl_Error = ''Not Found''\<rparr>]], None)"
    by code_simp
  show "map_option (\<lambda>(e, agg, a). (fetchLog a, map URL (Pages (report agg))))
     (run 2 (exampleEnv siteMissing htmlEvil)
        (exampleAnalyzer (exampleEnv siteMissing htmlEvil) 1)
        (newReport (exampleEnv siteMissing htmlEvil)
           (exampleOptions ''https://example.com'' 1))) =
     Some ([''https://example.com'', ''https://evil.test/broken''], [''https://example.com''])"
    by code_simp
qed

section \<open>The fetch cache under concurrent callers\<close>

lemma map_of_filter_key:
  "map_of (filter (\<lambda>kv. fst kv \<noteq> k) xs) u = (if u = k then None else map_of xs u)"
  by (induction xs) auto

lemma cacheInv_initial: "cacheInv (initial n us)"
  by (simp add: cacheInv_def initial_def)

text \<open>
  The invariant after a step that moves caller \<open>t\<close> to the place \<open>p\<close>: what is to be
  shown of the new state.
\<close>

lemma cacheInv_update:
  assumes inv: "cacheInv s" and t: "t < length (callers s)"
    and c: "callers s' = (callers s)[t := p]"
    and d: "distinct (fetchCalls s')"
    and dom: "\<forall>u\<in>set (fetchCalls s'). map_of (cache s') u \<noteq> None"
    and bound: "\<forall>u e. map_of (cache s') u = Some e \<longrightarrow> e < length (entries s')"
    and new: "callerInv s' p"
    and others: "\<And>t'. t' < length (callers s) \<Longrightarrow> t' \<noteq> t \<Longrightarrow> callerInv s (callers s ! t') \<Longrightarrow>
        callerInv s' (callers s ! t')"
    and own: "owned p = None \<or> owned p = owned (callers s ! t) \<or>
        (\<forall>t'<length (callers s). owned (callers s ! t') \<noteq> owned p)"
  shows "cacheInv s'"
  unfolding cacheInv_def
proof (intro conjI allI impI)
  show "distinct (fetchCalls s')" by (rule d)
  show "\<forall>u\<in>set (fetchCalls s'). map_of (cache s') u \<noteq> None" by (rule dom)
next
  fix u e assume "map_of (cache s') u = Some e"
  with bound show "e < length (entries s')" by blast
next
  fix t' assume "t' < length (callers s')"
  then have l: "t' < length (callers s)" by (simp add: c)
  show "callerInv s' (callers s' ! t')"
  proof (cases "t' = t")
    case True
    with l new show ?thesis by (simp add: c)
  next
    case False
    from inv l have "callerInv s (callers s ! t')" by (simp add: cacheInv_def)
    from others [OF l False this] False l show ?thesis by (simp add: c)
  qed
next
  fix t1 t2 e
  assume h: "t1 < length (callers s')" "t2 < length (callers s')"
    "owned (callers s' ! t1) = Some e \<and> owned (callers s' ! t2) = Some e"
  have u: "\<And>a b. a < length (callers s) \<Longrightarrow> b < length (callers s) \<Longrightarrow>
      owned (callers s ! a) = Some e \<Longrightarrow> owned (callers s ! b) = Some e \<Longrightarrow> a = b"
    using inv by (simp add: cacheInv_def)
  from h have l: "t1 < length (callers s)" "t2 < length (callers s)" by (simp_all add: c)
  show "t1 = t2"
  proof (cases "t1 = t")
    case t1: True
    show ?thesis
    proof (cases "t2 = t")
      case True
      with t1 show ?thesis by simp
    next
      case False
      from h(3) t1 l have pe: "owned p = Some e" by (simp add: c)
      from h(3) False l have o2: "owned (callers s ! t2) = Some e" by (simp add: c)
      from own pe o2 l(2) have "owned (callers s ! t) = Some e" by auto
      from u [OF t l(2) this o2] False show ?thesis by simp
    qed
  next
    case f1: False
    from h(3) f1 l have o1: "owned (callers s ! t1) = Some e" by (simp add: c)
    show ?thesis
    proof (cases "t2 = t")
      case True
      from h(3) True l have pe: "owned p = Some e" by (simp add: c)
      from own pe o1 l(1) have "owned (callers s ! t) = Some e" by auto
      from u [OF l(1) t o1 this] f1 show ?thesis by simp
    next
      case False
      from h(3) False l have o2: "owned (callers s ! t2) = Some e" by (simp add: c)
      from u [OF l o1 o2] show ?thesis .
    qed
  qed
qed

lemma cacheInv_caller:
  "cacheInv s \<Longrightarrow> t < length (callers s) \<Longrightarrow> callerInv s (callers s ! t)"
  by (simp add: cacheInv_def)

lemma cacheInv_unique:
  "cacheInv s \<Longrightarrow> t < length (callers s) \<Longrightarrow> t' < length (callers s) \<Longrightarrow>
   owned (callers s ! t) = Some e \<Longrightarrow> owned (callers s ! t') = Some e \<Longrightarrow> t = t'"
  unfolding cacheInv_def by blast

text \<open>The steps, one by one.\<close>

lemma cacheInv_Enter:
  assumes inv: "cacheInv s" and st: "step s (Enter t) = Some s'"
  shows "cacheInv s'"
proof -
  from st have t: "t < length (callers s)" by (simp split: if_splits)
  from st t obtain u where p: "callers s ! t = Start u"
    by (cases "callers s ! t") simp_all
  show ?thesis
  proof (cases "map_of (cache s) u")
    case (Some e)
    with st t p have s': "s' = setCaller s t (AwaitReady u e)" by simp
    from inv Some have "e < length (entries s)" by (simp add: cacheInv_def)
    then have e: "e < length (entries s)" .
    show ?thesis
    proof (rule cacheInv_update [OF inv t, of _ "AwaitReady u e"])
      show "callerInv s' (callers s ! t')"
        if "callerInv s (callers s ! t')" for t'
        using that by (cases "callers s ! t'") (simp_all add: s' setCaller_def)
    qed (use inv e in \<open>simp_all add: s' setCaller_def cacheInv_def\<close>)
  next
    case None
    let ?e = "length (entries s)"
    from st t p None have s': "s' = setCaller
        (s\<lparr>cache := (u, ?e) # cache s,
           entries := entries s @ [\<lparr>stored = (emptyResult, None), ready = False\<rparr>]\<rparr>)
        t (Acquiring u ?e)"
      by (simp add: Let_def)
    have nf: "u \<notin> set (fetchCalls s)" using inv None by (auto simp: cacheInv_def)
    show ?thesis
    proof (rule cacheInv_update [OF inv t, of _ "Acquiring u ?e"])
      show "callers s' = (callers s)[t := Acquiring u ?e]" by (simp add: s' setCaller_def)
      show "distinct (fetchCalls s')" using inv by (simp add: s' setCaller_def cacheInv_def)
      show "\<forall>u\<in>set (fetchCalls s'). map_of (cache s') u \<noteq> None"
        using inv by (simp add: s' setCaller_def cacheInv_def)
      show "\<forall>u e. map_of (cache s') u = Some e \<longrightarrow> e < length (entries s')"
        using inv by (auto simp: s' setCaller_def cacheInv_def less_Suc_eq)
      show "callerInv s' (Acquiring u ?e)" using nf by (simp add: s' setCaller_def)
      show "callerInv s' (callers s ! t')"
        if "t' < length (callers s)" "t' \<noteq> t" "callerInv s (callers s ! t')" for t'
        using that(3) None
        by (cases "callers s ! t'") (auto simp: s' setCaller_def nth_append)
      have "owned (callers s ! t') \<noteq> Some ?e" if "t' < length (callers s)" for t'
        using cacheInv_caller [OF inv that]
        by (cases "callers s ! t'") auto
      then show "owned (Acquiring u ?e) = None \<or>
          owned (Acquiring u ?e) = owned (callers s ! t) \<or>
          (\<forall>t'<length (callers s). owned (callers s ! t') \<noteq> owned (Acquiring u ?e))"
        by simp
    qed
  qed
qed

lemma cacheInv_ReadyWins:
  assumes inv: "cacheInv s" and st: "step s (ReadyWins t) = Some s'"
  shows "cacheInv s'"
proof -
  from st have t: "t < length (callers s)" by (simp split: if_splits)
  from st t obtain u e where p: "callers s ! t = AwaitReady u e"
    by (cases "callers s ! t") simp_all
  from st t p have r: "e < length (entries s)" "ready (entries s ! e)"
    and s': "s' = setCaller s t (Returned u e False (stored (entries s ! e)))"
    by (simp_all split: if_splits)
  show ?thesis
  proof (rule cacheInv_update [OF inv t, of _ "Returned u e False (stored (entries s ! e))"])
    show "callerInv s' (callers s ! t')"
      if "callerInv s (callers s ! t')" for t'
      using that by (cases "callers s ! t'") (simp_all add: s' setCaller_def)
  qed (use inv r in \<open>simp_all add: s' setCaller_def cacheInv_def\<close>)
qed

lemma cacheInv_DoneWins:
  assumes inv: "cacheInv s" and st: "step s (DoneWins t) = Some s'"
  shows "cacheInv s'"
proof -
  from st have t: "t < length (callers s)" by (simp split: if_splits)
  from st t obtain u e where p: "callers s ! t = AwaitReady u e"
    by (cases "callers s ! t") simp_all
  from st t p obtain ce where ce: "ctx s = Some ce"
    and s': "s' = setCaller s t (Returned u e False (emptyResult, Some ce))"
    by (cases "ctx s") simp_all
  from cacheInv_caller [OF inv t] p have e: "e < length (entries s)" by simp
  show ?thesis
  proof (rule cacheInv_update [OF inv t, of _ "Returned u e False (emptyResult, Some ce)"])
    show "callerInv s' (callers s ! t')"
      if "callerInv s (callers s ! t')" for t'
      using that by (cases "callers s ! t'") (simp_all add: s' setCaller_def)
  qed (use inv e ce in \<open>simp_all add: s' setCaller_def cacheInv_def\<close>)
qed

lemma cacheInv_AcquireOK:
  assumes inv: "cacheInv s" and st: "step s (AcquireOK t) = Some s'"
  shows "cacheInv s'"
proof -
  from st have t: "t < length (callers s)" by (simp split: if_splits)
  from st t obtain u e where p: "callers s ! t = Acquiring u e"
    by (cases "callers s ! t") simp_all
  from st t p have s': "s' = setCaller
      (s\<lparr>freeSlots := freeSlots s - 1, fetchCalls := fetchCalls s @ [u]\<rparr>) t (Fetching u e)"
    by (simp split: if_splits)
  from cacheInv_caller [OF inv t] p have a: "e < length (entries s)" "\<not> ready (entries s ! e)"
    "map_of (cache s) u = Some e" "u \<notin> set (fetchCalls s)" by simp_all
  show ?thesis
  proof (rule cacheInv_update [OF inv t, of _ "Fetching u e"])
    show "callers s' = (callers s)[t := Fetching u e]" by (simp add: s' setCaller_def)
    show "distinct (fetchCalls s')" using inv a by (simp add: s' setCaller_def cacheInv_def)
    show "\<forall>u\<in>set (fetchCalls s'). map_of (cache s') u \<noteq> None"
      using inv a by (simp add: s' setCaller_def cacheInv_def)
    show "\<forall>u e. map_of (cache s') u = Some e \<longrightarrow> e < length (entries s')"
      using inv by (simp add: s' setCaller_def cacheInv_def)
    show "callerInv s' (Fetching u e)" using a by (simp add: s' setCaller_def)
    show "callerInv s' (callers s ! t')"
      if h: "t' < length (callers s)" "t' \<noteq> t" "callerInv s (callers s ! t')" for t'
    proof (cases "callers s ! t'")
      case (Acquiring u' e')
      have "u' \<noteq> u"
      proof
        assume "u' = u"
        with h(3) Acquiring a(3) have "e' = e" by simp
        with Acquiring p cacheInv_unique [OF inv h(1) t, of e] h(2) show False by simp
      qed
      with h(3) Acquiring show ?thesis by (simp add: s' setCaller_def)
    qed (use h(3) in \<open>simp_all add: s' setCaller_def\<close>)
    show "owned (Fetching u e) = None \<or> owned (Fetching u e) = owned (callers s ! t) \<or>
        (\<forall>t'<length (callers s). owned (callers s ! t') \<noteq> owned (Fetching u e))"
      by (simp add: p)
  qed
qed

text \<open>
  A step that fills the entry \<open>e\<close> of its owner: the other callers keep what the
  invariant says of them, since none of them owns \<open>e\<close> and \<open>e\<close> was not ready.
\<close>

lemma callerInv_fill:
  assumes inv: "cacheInv s" and t: "t < length (callers s)"
    and o: "owned (callers s ! t) = Some e" and nr: "\<not> ready (entries s ! e)"
    and t': "t' < length (callers s)" "t' \<noteq> t" and ci: "callerInv s (callers s ! t')"
    and en: "entries s' = (entries s)[e := x]" and cx: "ctx s' = ctx s"
    and fc: "fetchCalls s' = fetchCalls s"
    and ca: "\<And>u' e'. e' \<noteq> e \<Longrightarrow> map_of (cache s) u' = Some e' \<Longrightarrow> map_of (cache s') u' = Some e'"
  shows "callerInv s' (callers s ! t')"
proof -
  have ne: "e' \<noteq> e" if "owned (callers s ! t') = Some e'" for e'
    using cacheInv_unique [OF inv t'(1) t, of e] that o t'(2) by auto
  show ?thesis
  proof (cases "callers s ! t'")
    case (Start u')
    then show ?thesis by simp
  next
    case (AwaitReady u' e')
    with ci show ?thesis by (simp add: en)
  next
    case (Acquiring u' e')
    with ne have "e' \<noteq> e" by simp
    with ci Acquiring ca [of e' u'] show ?thesis by (simp add: en fc)
  next
    case (Fetching u' e')
    with ne have "e' \<noteq> e" by simp
    with ci Fetching show ?thesis by (simp add: en fc)
  next
    case (Returned u' e' ins r)
    show ?thesis
    proof (cases "e' = e")
      case True
      with ci Returned nr show ?thesis by (simp add: en cx fc)
    next
      case False
      with ci Returned show ?thesis by (simp add: en cx fc)
    qed
  qed
qed

lemma cacheInv_AcquireFail:
  assumes inv: "cacheInv s" and st: "step s (AcquireFail t) = Some s'"
  shows "cacheInv s'"
proof -
  from st have t: "t < length (callers s)" by (simp split: if_splits)
  from st t obtain u e where p: "callers s ! t = Acquiring u e"
    by (cases "callers s ! t") simp_all
  from st t p obtain ce where ce: "ctx s = Some ce"
    and s': "s' = setCaller
        (s\<lparr>cache := filter (\<lambda>kv. fst kv \<noteq> u) (cache s),
           entries := (entries s)[e := \<lparr>stored = (emptyResult, Some ce), ready = True\<rparr>]\<rparr>)
        t (Returned u e True (emptyResult, Some ce))"
    by (cases "ctx s") simp_all
  from cacheInv_caller [OF inv t] p have a: "e < length (entries s)" "\<not> ready (entries s ! e)"
    "map_of (cache s) u = Some e" "u \<notin> set (fetchCalls s)" by simp_all
  show ?thesis
  proof (rule cacheInv_update [OF inv t, of _ "Returned u e True (emptyResult, Some ce)"])
    show "callers s' = (callers s)[t := Returned u e True (emptyResult, Some ce)]"
      by (simp add: s' setCaller_def)
    show "distinct (fetchCalls s')" using inv by (simp add: s' setCaller_def cacheInv_def)
    show "\<forall>u\<in>set (fetchCalls s'). map_of (cache s') u \<noteq> None"
      using inv a(4) by (auto simp: s' setCaller_def cacheInv_def map_of_filter_key)
    show "\<forall>u e. map_of (cache s') u = Some e \<longrightarrow> e < length (entries s')"
      using inv by (auto simp: s' setCaller_def cacheInv_def map_of_filter_key split: if_splits)
    show "callerInv s' (Returned u e True (emptyResult, Some ce))"
      using a ce by (simp add: s' setCaller_def)
    show "callerInv s' (callers s ! t')"
      if h: "t' < length (callers s)" "t' \<noteq> t" "callerInv s (callers s ! t')" for t'
    proof (rule callerInv_fill [OF inv t _ a(2) h])
      show "owned (callers s ! t) = Some e" by (simp add: p)
      show "entries s' = (entries s)[e := \<lparr>stored = (emptyResult, Some ce), ready = True\<rparr>]"
        by (simp add: s' setCaller_def)
      show "ctx s' = ctx s" "fetchCalls s' = fetchCalls s" by (simp_all add: s' setCaller_def)
      show "map_of (cache s') u' = Some e'" if "e' \<noteq> e" "map_of (cache s) u' = Some e'" for u' e'
        using that a(3) by (auto simp: s' setCaller_def map_of_filter_key)
    qed
    show "owned (Returned u e True (emptyResult, Some ce)) = None \<or>
        owned (Returned u e True (emptyResult, Some ce)) = owned (callers s ! t) \<or>
        (\<forall>t'<length (callers s). owned (callers s ! t') \<noteq>
           owned (Returned u e True (emptyResult, Some ce)))"
      by simp
  qed
qed

lemma cacheInv_FetchReturn:
  assumes inv: "cacheInv s" and st: "step s (FetchReturn t r) = Some s'"
  shows "cacheInv s'"
proof -
  from st have t: "t < length (callers s)" by (simp split: if_splits)
  from st t obtain u e where p: "callers s ! t = Fetching u e"
    by (cases "callers s ! t") simp_all
  from st t p have s': "s' = setCaller
        (s\<lparr>entries := (entries s)[e := \<lparr>stored = r, ready = True\<rparr>],
           freeSlots := freeSlots s + 1\<rparr>)
        t (Returned u e True r)"
    by simp
  from cacheInv_caller [OF inv t] p have a: "e < length (entries s)" "\<not> ready (entries s ! e)"
    "u \<in> set (fetchCalls s)" by simp_all
  show ?thesis
  proof (rule cacheInv_update [OF inv t, of _ "Returned u e True r"])
    show "callers s' = (callers s)[t := Returned u e True r]" by (simp add: s' setCaller_def)
    show "distinct (fetchCalls s')" using inv by (simp add: s' setCaller_def cacheInv_def)
    show "\<forall>u\<in>set (fetchCalls s'). map_of (cache s') u \<noteq> None"
      using inv by (simp add: s' setCaller_def cacheInv_def)
    show "\<forall>u e. map_of (cache s') u = Some e \<longrightarrow> e < length (entries s')"
      using inv by (simp add: s' setCaller_def cacheInv_def)
    show "callerInv s' (Returned u e True r)" using a by (simp add: s' setCaller_def)
    show "callerInv s' (callers s ! t')"
      if h: "t' < length (callers s)" "t' \<noteq> t" "callerInv s (callers s ! t')" for t'
    proof (rule callerInv_fill [OF inv t _ a(2) h])
      show "owned (callers s ! t) = Some e" by (simp add: p)
      show "entries s' = (entries s)[e := \<lparr>stored = r, ready = True\<rparr>]"
        by (simp add: s' setCaller_def)
      show "ctx s' = ctx s" "fetchCalls s' = fetchCalls s" by (simp_all add: s' setCaller_def)
      show "map_of (cache s') u' = Some e'" if "map_of (cache s) u' = Some e'" for u' e'
        using that by (simp add: s' setCaller_def)
    qed
    show "owned (Returned u e True r) = None \<or>
        owned (Returned u e True r) = owned (callers s ! t) \<or>
        (\<forall>t'<length (callers s). owned (callers s ! t') \<noteq> owned (Returned u e True r))"
      by simp
  qed
qed

lemma cacheInv_Cancel:
  assumes inv: "cacheInv s" and st: "step s (Cancel ce) = Some s'"
  shows "cacheInv s'"
proof -
  from st have n: "ctx s = None" and s': "s' = s\<lparr>ctx := Some ce\<rparr>"
    by (cases "ctx s"; simp)+
  have "callerInv s' q" if "callerInv s q" for q
    using that n by (cases q) (simp_all add: s')
  with inv show ?thesis by (simp add: cacheInv_def s')
qed

lemma cacheInv_step:
  assumes "cacheInv s" and "step s ev = Some s'"
  shows "cacheInv s'"
  using assms
  by (cases ev)
     (blast intro: cacheInv_Enter cacheInv_ReadyWins cacheInv_DoneWins cacheInv_AcquireOK
        cacheInv_AcquireFail cacheInv_FetchReturn cacheInv_Cancel)+

lemma cacheInv_exec:
  assumes "cacheInv s" and "exec s evs = Some s'"
  shows "cacheInv s'"
  using assms
proof (induction evs arbitrary: s)
  case Nil
  then show ?case by simp
next
  case (Cons ev evs)
  from Cons.prems(2) obtain s1 where s1: "step s ev = Some s1" "exec s1 evs = Some s'"
    by (cases "step s ev") simp_all
  from cacheInv_step [OF Cons.prems(1) s1(1)] s1(2) show ?case by (rule Cons.IH)
qed

lemma distinct_count_list: "distinct xs \<Longrightarrow> count_list xs x \<le> 1"
  by (induction xs) (auto simp: count_list_0_iff)

lemma exec_callers_length: "exec s evs = Some s' \<Longrightarrow> length (callers s') = length (callers s)"
proof (induction evs arbitrary: s)
  case Nil
  then show ?case by simp
next
  case (Cons ev evs)
  from Cons.prems obtain s1 where s1: "step s ev = Some s1" "exec s1 evs = Some s'"
    by (cases "step s ev") simp_all
  have "length (callers s1) = length (callers s)"
    using s1(1)
    by (cases ev)
       (auto simp: setCaller_def Let_def split: if_splits pc.splits option.splits)
  with Cons.IH [OF s1(2)] show ?case by simp
qed

text \<open>
  C2, refuted as stated: a later caller for the same URL does not always return what
  the first caller stored. Two callers for one URL; the first inserts the entry and
  enters the fetcher, the context is cancelled, the second caller's \<open>select\<close> takes
  \<open>ctx.Done()\<close>, and then the fetcher returns a 200 to the first caller. The second
  caller has returned the empty result with \<open>context.Canceled\<close>, the first caller and
  the entry hold the 200.
\<close>

theorem follower_cancelled_counterexample:
  "map_option (\<lambda>s. (callers s, map stored (entries s), fetchCalls s))
     (exec (initial 1 [''https://example.com/a'', ''https://example.com/a'']) cancelledRun) =
   Some ([Returned ''https://example.com/a'' 0 True (response 200 ''ok'', None),
          Returned ''https://example.com/a'' 0 False (emptyResult, Some Canceled)],
         [(response 200 ''ok'', None)],
         [''https://example.com/a''])"
  by code_simp

text \<open>
  C2 (amended): in every run of any number of callers of \<open>fetchWithCache\<close>, under any
  interleaving and with the context cancelled at any moment, the fetcher is called at
  most once for each URL. A caller that has returned after inserting the entry returns
  what the entry stores, and it has called the fetcher for the URL or returns the
  context's error; a caller that has returned after finding an entry returns exactly
  the result and error stored in that entry, which is ready, or else, the context
  being done, the empty result with the context's error.
\<close>

theorem single_flight:
  assumes "exec (initial n us) evs = Some s"
  shows "(\<forall>u. count_list (fetchCalls s) u \<le> 1) \<and>
    length (callers s) = length us \<and>
    (\<forall>t<length (callers s). \<forall>u e r.
       (callers s ! t = Returned u e True r \<longrightarrow>
          e < length (entries s) \<and> ready (entries s ! e) \<and> r = stored (entries s ! e) \<and>
          (u \<in> set (fetchCalls s) \<or> (ctx s \<noteq> None \<and> r = (emptyResult, ctx s)))) \<and>
       (callers s ! t = Returned u e False r \<longrightarrow>
          e < length (entries s) \<and>
          ((ready (entries s ! e) \<and> r = stored (entries s ! e)) \<or>
           (ctx s \<noteq> None \<and> r = (emptyResult, ctx s)))))"
proof -
  have inv: "cacheInv s" using cacheInv_initial assms by (rule cacheInv_exec)
  have len: "length (callers s) = length us"
    using exec_callers_length [OF assms] by (simp add: initial_def)
  have cnt: "count_list (fetchCalls s) u \<le> 1" for u
    using inv by (intro distinct_count_list) (simp add: cacheInv_def)
  have ret: "(callers s ! t = Returned u e True r \<longrightarrow>
          e < length (entries s) \<and> ready (entries s ! e) \<and> r = stored (entries s ! e) \<and>
          (u \<in> set (fetchCalls s) \<or> (ctx s \<noteq> None \<and> r = (emptyResult, ctx s)))) \<and>
       (callers s ! t = Returned u e False r \<longrightarrow>
          e < length (entries s) \<and>
          ((ready (entries s ! e) \<and> r = stored (entries s ! e)) \<or>
           (ctx s \<noteq> None \<and> r = (emptyResult, ctx s))))"
    if "t < length (callers s)" for t u e r
    using cacheInv_caller [OF inv that] by auto
  from cnt len ret show ?thesis by blast
qed

theorem single_flight_witness:
  "map_option (\<lambda>s. (callers s, map stored (entries s), fetchCalls s))
     (exec (initial 1 [''https://example.com/a'', ''https://example.com/a'']) followerRun) =
   Some ([Returned ''https://example.com/a'' 0 True (response 200 ''ok'', None),
          Returned ''https://example.com/a'' 0 False (response 200 ''ok'', None)],
         [(response 200 ''ok'', None)],
         [''https://example.com/a'']) \<and>
   count_list (fetchCalls (the (exec (initial 1 [''https://example.com/a'',
       ''https://example.com/a'']) followerRun))) ''https://example.com/a'' \<le> 1 \<and>
   length (callers (the (exec (initial 1 [''https://example.com/a'',
       ''https://example.com/a'']) followerRun))) = 2"
proof -
  let ?s0 = "initial 1 [''https://example.com/a'', ''https://example.com/a'']"
  have ev: "map_option (\<lambda>s. (callers s, map stored (entries s), fetchCalls s))
     (exec ?s0 followerRun) =
   Some ([Returned ''https://example.com/a'' 0 True (response 200 ''ok'', None),
          Returned ''https://example.com/a'' 0 False (response 200 ''ok'', None)],
         [(response 200 ''ok'', None)],
         [''https://example.com/a''])"
    by code_simp
  then obtain s where s: "exec ?s0 followerRun = Some s" by (cases "exec ?s0 followerRun") auto
  from single_flight [OF s]
  have "count_list (fetchCalls s) ''https://example.com/a'' \<le> 1"
    and "length (callers s) = length [''https://example.com/a'', ''https://example.com/a'']"
    by blast+
  with ev s show ?thesis by simp
qed

end
